theory Spec2Isabelle
  imports Main "HOL-Library.Word"
begin

unbundle bit_operations_syntax

section \<open>Data model of the buttons engine\<close>

text \<open>
  The enumerations of \<^verbatim>\<open>io::buttons\<close>. \<^verbatim>\<open>CUSTOM_SYS_EX\<close> is the kind that
  \<^verbatim>\<open>Buttons::sendMessage\<close> switches on for the custom SysEx frame.
\<close>

datatype type_t = MOMENTARY | LATCHING

datatype messageType_t =
    NOTE
  | PROGRAM_CHANGE
  | CONTROL_CHANGE
  | CONTROL_CHANGE_RESET
  | MMC_STOP
  | MMC_PLAY
  | MMC_RECORD
  | MMC_PAUSE
  | REAL_TIME_CLOCK
  | REAL_TIME_START
  | REAL_TIME_CONTINUE
  | REAL_TIME_STOP
  | REAL_TIME_ACTIVE_SENSING
  | REAL_TIME_SYSTEM_RESET
  | PROGRAM_CHANGE_INC
  | PROGRAM_CHANGE_DEC
  | NONE
  | PRESET_CHANGE
  | MULTI_VAL_INC_RESET_NOTE
  | MULTI_VAL_INC_DEC_NOTE
  | MULTI_VAL_INC_RESET_CC
  | MULTI_VAL_INC_DEC_CC
  | NOTE_OFF_ONLY
  | CONTROL_CHANGE0_ONLY
  | BANK_SELECT_PROGRAM_CHANGE
  | PROGRAM_CHANGE_OFFSET_INC
  | PROGRAM_CHANGE_OFFSET_DEC
  | BPM_INC
  | BPM_DEC
  | MMC_PLAY_STOP
  | NOTE_LEGATO
  | CUSTOM_SYS_EX

text \<open>
  Modelled from the spec: the declaration of \<^verbatim>\<open>protocol::midi::messageType_t\<close> is not
  in the sources. These are the outbound message kinds that the engine names; every other
  kind (the entries of the lookup table that the descriptor resolver uses) is
  \<open>MIDI_OTHER\<close> with its number. The tags of the event bus and the system messages are
  the ones the engine names, too.
\<close>

datatype midi_messageType_t =
    MIDI_NOTE_OFF
  | MIDI_NOTE_ON
  | MIDI_CONTROL_CHANGE
  | MIDI_PROGRAM_CHANGE
  | MIDI_SYS_EX
  | MIDI_MMC_RECORD_STOP
  | MIDI_MMC_STOP
  | MIDI_OTHER nat

datatype eventType_t = BUTTON | SYSTEM

datatype systemMessage_t = SYS_MSG_DEFAULT | PRESET_CHANGE_DIRECT_REQ

text \<open>
  Modelled from the spec: the declaration of \<^verbatim>\<open>messaging::Event\<close> is not in the
  sources. A published event carries channel, identifier, value, outbound message kind,
  and for SysEx a raw byte payload with explicit length. The channel is a byte, identifier
  and value are 16-bit (the engine masks them with \<^verbatim>\<open>0xFF\<close> and \<^verbatim>\<open>0x3FFF\<close>). The
  field \<^verbatim>\<open>value\<close> is \<open>val\<close> here, and the field \<^verbatim>\<open>type\<close> of the descriptor is
  \<open>btype\<close>.

  The field \<^verbatim>\<open>sysEx\<close> is a pointer: the engine assigns an array to it, and the event
  does not own the bytes. The only arrays that the engine assigns are automatic arrays of
  blocks of \<^verbatim>\<open>sendMessage\<close>, so a pointer is one of three things: null; a pointer to
  an array of a block that is still open, with the contents of the array (\<open>LIVE\<close>); or
  a pointer to an array of a block that has been left (\<open>DANGLING\<close>), through which the
  language defines no read.
\<close>

datatype sysExPtr = NULLPTR | LIVE "8 word list" | DANGLING

record Event =
  componentIndex :: nat
  channel :: "8 word"
  index :: "16 word"
  val :: "16 word"
  message :: midi_messageType_t
  sysEx :: sysExPtr
  sysExLength :: nat
  systemMessage :: systemMessage_t

record Descriptor =
  btype :: type_t
  messageType :: messageType_t
  event :: Event

text \<open>
  Modelled from the spec: the class declaration (\<^verbatim>\<open>buttons.h\<close>) is not in the sources.
  The members of \<^verbatim>\<open>Buttons\<close> are two bit-packed byte arrays, the running multi-value
  counters (7-bit values), per MIDI channel a press-reference count and the sounding note,
  and the register-chromatic flag and note. Counts and notes are unsigned bytes, as the
  byte-sized locals that the engine copies them into. \<open>globals\<close> is the state of the
  program-change and tempo singletons, which live outside the engine.
\<close>

record 'g Buttons =
  buttonPressed :: "8 word list"
  lastLatchingState :: "8 word list"
  incDecValue :: "8 word list"
  legatoButtonCount :: "8 word list"
  legatoActiveNote :: "8 word list"
  saxNoteOn :: bool
  saxActiveNote :: "8 word"
  globals :: 'g

subsection \<open>The store\<close>

datatype button_t =
    BUTTON_TYPE
  | MESSAGE_TYPE
  | CHANNEL
  | MIDI_ID
  | VALUE
  | SYSEX_LENGTH
  | SYSEX_DATA nat
  | SAX_REGISTER_KEY_MAP

datatype systemSetting_t =
    SAX_REGISTER_CHROMATIC_ENABLE
  | SAX_REGISTER_CHROMATIC_BASE_NOTE
  | SAX_REGISTER_CHROMATIC_TRANSPOSE
  | SAX_REGISTER_CHROMATIC_INPUT_INVERT

datatype global_t =
    MIDI_SETTINGS_GLOBAL_CHANNEL
  | SAX_FINGERING_MASK_HI10_ENABLE
  | SAX_FINGERING_MASK_LO14
  | SAX_FINGERING_NOTE

text \<open>
  Modelled from the spec: the store is an external collaborator,
  \<^verbatim>\<open>read(section, index) -> value\<close>, sectioned by enumerations. This is what
  \<^verbatim>\<open>_database.read(section, index)\<close> returns, by the type of the section:
  button sections and global sections are read by index, the system settings by the name
  of the setting, the global channel is one value (its index is ignored). \<open>SYSEX_DATA k\<close>
  is the section \<^verbatim>\<open>SYSEX_DATA_0 + k\<close>, \<open>BUTTON_TYPE\<close> is the section \<^verbatim>\<open>TYPE\<close>.
\<close>

record Database =
  read_button :: "button_t \<Rightarrow> nat \<Rightarrow> 32 word"
  read_system :: "systemSetting_t \<Rightarrow> 32 word"
  read_global :: "global_t \<Rightarrow> nat \<Rightarrow> 32 word"

subsection \<open>Build configuration and external collaborators\<close>

datatype incDecType_t = OVERFLOW | EDGE

text \<open>
  The sections of the configuration protocol, \<^verbatim>\<open>sys::Config::Section::button_t\<close>: the
  engine names two of them, every other one is \<open>SYS_SECTION\<close> with its number.
\<close>

datatype sys_button_t = SYS_TYPE | SYS_MESSAGE_TYPE | SYS_SECTION nat

datatype status_t = ACK | ERROR_READ | ERROR_WRITE

text \<open>
  The build-time constants and the collaborators whose code is outside the engine are
  parameters: the two feature macros, the number of digital inputs, the two fingering
  constants, the program-change singleton, the tempo singleton, the 7-bit
  increment helper, and the store's section conversion and update.
\<close>

record 'g Env =
  SAX_REGISTER_CHROMATIC :: bool
  DEBUG_SYSEX_TRACE :: bool
  DIGITAL_INPUTS :: nat
  SAX_FINGERING_KEYS :: nat
  SAX_FINGERING_TABLE_ENTRIES :: nat
  program_offset :: "'g \<Rightarrow> 16 word"
  incrementProgram :: "8 word \<Rightarrow> 8 word \<Rightarrow> 'g \<Rightarrow> bool \<times> 'g"
  decrementProgram :: "8 word \<Rightarrow> 8 word \<Rightarrow> 'g \<Rightarrow> bool \<times> 'g"
  program :: "8 word \<Rightarrow> 'g \<Rightarrow> 16 word"
  incrementOffset :: "16 word \<Rightarrow> 'g \<Rightarrow> 'g"
  decrementOffset :: "16 word \<Rightarrow> 'g \<Rightarrow> 'g"
  bpm_increment :: "8 word \<Rightarrow> 'g \<Rightarrow> bool \<times> 'g"
  bpm_decrement :: "8 word \<Rightarrow> 'g \<Rightarrow> bool \<times> 'g"
  bpm_value :: "'g \<Rightarrow> 16 word"
  valueIncrement :: "8 word \<Rightarrow> 16 word \<Rightarrow> incDecType_t \<Rightarrow> 8 word"
  SYS_2_DB_SECTION :: "sys_button_t \<Rightarrow> button_t"
  db_update :: "button_t \<Rightarrow> nat \<Rightarrow> 32 word \<Rightarrow> Database \<Rightarrow> bool \<times> Database"

section \<open>State store\<close>

text \<open>
  Modelled from the spec: the macros \<^verbatim>\<open>core::util::BIT_READ\<close> and
  \<^verbatim>\<open>core::util::BIT_WRITE\<close> are not in the sources; they read and write one bit of a
  container (bit read/write with no side effects).
\<close>

definition BIT_READ :: "8 word \<Rightarrow> nat \<Rightarrow> bool" where
  "BIT_READ v b = (drop_bit b v AND 1 \<noteq> 0)"

definition BIT_WRITE :: "8 word \<Rightarrow> nat \<Rightarrow> bool \<Rightarrow> 8 word" where
  "BIT_WRITE v b x = (if x then v OR push_bit b 1 else v AND NOT (push_bit b 1))"

text \<open>
  \<^verbatim>\<open>uint8_t arrayIndex = index / 8; uint8_t bit = index - 8 * arrayIndex;\<close> Both are
  narrowed to a byte.
\<close>

definition arrayIndex :: "nat \<Rightarrow> nat" where
  "arrayIndex i = (i div 8) mod 256"

definition bitIndex :: "nat \<Rightarrow> nat" where
  "bitIndex i = (i - 8 * arrayIndex i) mod 256"

definition setState :: "nat \<Rightarrow> bool \<Rightarrow> 'g Buttons \<Rightarrow> 'g Buttons" where
  "setState i x s =
     s\<lparr>buttonPressed :=
         (buttonPressed s)[arrayIndex i := BIT_WRITE (buttonPressed s ! arrayIndex i) (bitIndex i) x]\<rparr>"

definition state :: "'g Buttons \<Rightarrow> nat \<Rightarrow> bool" where
  "state s i = BIT_READ (buttonPressed s ! arrayIndex i) (bitIndex i)"

definition setLatchingState :: "nat \<Rightarrow> bool \<Rightarrow> 'g Buttons \<Rightarrow> 'g Buttons" where
  "setLatchingState i x s =
     s\<lparr>lastLatchingState :=
         (lastLatchingState s)[arrayIndex i :=
            BIT_WRITE (lastLatchingState s ! arrayIndex i) (bitIndex i) x]\<rparr>"

definition latchingState :: "'g Buttons \<Rightarrow> nat \<Rightarrow> bool" where
  "latchingState s i = BIT_READ (lastLatchingState s ! arrayIndex i) (bitIndex i)"

definition reset :: "nat \<Rightarrow> 'g Buttons \<Rightarrow> 'g Buttons" where
  "reset i s = setLatchingState i False (setState i False s)"

section \<open>Message translation engine\<close>

type_synonym bus = "(eventType_t \<times> Event) list"

text \<open>
  The result of one arm of the switch in \<^verbatim>\<open>sendMessage\<close>: the flag \<^verbatim>\<open>send\<close>, the
  local \<^verbatim>\<open>eventType\<close>, the descriptor (passed by reference and written to), what the
  arm itself has published through \<^verbatim>\<open>MidiDispatcher.notify\<close>, and the members.
\<close>

type_synonym 'g arm = "bool \<times> eventType_t \<times> Descriptor \<times> bus \<times> 'g Buttons"

definition setEvent :: "(Event \<Rightarrow> Event) \<Rightarrow> Descriptor \<Rightarrow> Descriptor" where
  "setEvent f d = d\<lparr>event := f (event d)\<rparr>"

subsection \<open>Legato\<close>

definition legatoPress :: "Descriptor \<Rightarrow> 'g Buttons \<Rightarrow> 'g arm" where
  "legatoPress d s =
     (let ch = unat (channel (event d) AND 0x0F);
          newNote = (ucast (index (event d) AND 0x7F) :: 8 word);
          cnt = legatoButtonCount s ! ch + 1;
          s1 = s\<lparr>legatoButtonCount := (legatoButtonCount s)[ch := cnt]\<rparr>;
          prevNote = legatoActiveNote s1 ! ch;
          out = (if 1 < cnt \<and> prevNote \<noteq> newNote
                 then [(BUTTON, (event d)\<lparr>index := ucast prevNote, val := 0,
                                          message := MIDI_NOTE_OFF\<rparr>)]
                 else []);
          s2 = s1\<lparr>legatoActiveNote := (legatoActiveNote s1)[ch := newNote]\<rparr>
      in (True, BUTTON, setEvent (\<lambda>e. e\<lparr>message := MIDI_NOTE_ON\<rparr>) d, out, s2))"

definition legatoRelease :: "Descriptor \<Rightarrow> 'g Buttons \<Rightarrow> 'g arm" where
  "legatoRelease d s =
     (let ch = unat (channel (event d) AND 0x0F);
          s1 = (if 0 < legatoButtonCount s ! ch
                then s\<lparr>legatoButtonCount := (legatoButtonCount s)[ch := legatoButtonCount s ! ch - 1]\<rparr>
                else s)
      in if legatoButtonCount s1 ! ch = 0
         then (True, BUTTON,
               setEvent (\<lambda>e. e\<lparr>index := ucast (legatoActiveNote s1 ! ch), val := 0,
                               message := MIDI_NOTE_OFF\<rparr>) d,
               [],
               s1\<lparr>legatoActiveNote := (legatoActiveNote s1)[ch := 0]\<rparr>)
         else (False, BUTTON, d, [], s1))"

subsection \<open>Multi-value counters\<close>

definition multiVal :: "'g Env \<Rightarrow> incDecType_t \<Rightarrow> bool \<Rightarrow> nat \<Rightarrow> Descriptor \<Rightarrow> 'g Buttons \<Rightarrow> 'g arm" where
  "multiVal env t isNote i d s =
     (let newValue = valueIncrement env (incDecValue s ! i) (val (event d)) t
      in if newValue \<noteq> incDecValue s ! i
         then (True, BUTTON,
               setEvent (\<lambda>e. (if isNote
                               then e\<lparr>message := (if newValue = 0 then MIDI_NOTE_OFF else MIDI_NOTE_ON)\<rparr>
                               else e)\<lparr>val := ucast newValue\<rparr>) d,
               [],
               s\<lparr>incDecValue := (incDecValue s)[i := newValue]\<rparr>)
         else (False, BUTTON, d, [], s))"

subsection \<open>Bank select and program change\<close>

definition bankSelect :: "Descriptor \<Rightarrow> 'g Buttons \<Rightarrow> 'g arm" where
  "bankSelect d s =
     (let bank = val (event d) AND 0x3FFF;
          bankMsb = (ucast (drop_bit 7 bank AND 0x7F) :: 8 word);
          bankLsb = (ucast (bank AND 0x7F) :: 8 word);
          ccMsb = (event d)\<lparr>message := MIDI_CONTROL_CHANGE, index := 0, val := ucast bankMsb\<rparr>;
          ccLsb = (event d)\<lparr>message := MIDI_CONTROL_CHANGE, index := 32, val := ucast bankLsb\<rparr>;
          pc = (event d)\<lparr>message := MIDI_PROGRAM_CHANGE, index := index (event d) AND 0x7F,
                          val := 0\<rparr>
      in (False, BUTTON, d, [(BUTTON, ccMsb), (BUTTON, ccLsb), (BUTTON, pc)], s))"

subsection \<open>Custom SysEx\<close>

definition MAX_TOTAL_LEN :: nat where
  "MAX_TOTAL_LEN = 16"

definition MAX_PAYLOAD_LEN :: nat where
  "MAX_PAYLOAD_LEN = MAX_TOTAL_LEN - 2"

definition CUSTOM_SYSEX_WORDS :: nat where
  "CUSTOM_SYSEX_WORDS = MAX_TOTAL_LEN div 2"

text \<open>One round of the loop over the stored words: both output indices are bytes.\<close>

definition payloadStep :: "Database \<Rightarrow> nat \<Rightarrow> nat \<Rightarrow> 8 word list \<Rightarrow> 8 word list" where
  "payloadStep db i wordIndex buf =
     (let word = (ucast (read_button db (SYSEX_DATA wordIndex) i) :: 16 word);
          b0 = (ucast (word AND 0x7F) :: 8 word);
          b1 = (ucast (drop_bit 7 word AND 0x7F) :: 8 word);
          outIndex0 = (2 * wordIndex) mod 256;
          outIndex1 = (2 * wordIndex + 1) mod 256;
          buf1 = (if outIndex0 < MAX_PAYLOAD_LEN then buf[outIndex0 := b0] else buf)
      in if outIndex1 < MAX_PAYLOAD_LEN then buf1[outIndex1 := b1] else buf1)"

definition payloadBuf :: "Database \<Rightarrow> nat \<Rightarrow> 8 word list" where
  "payloadBuf db i = fold (payloadStep db i) [0..<CUSTOM_SYSEX_WORDS] (replicate MAX_PAYLOAD_LEN 0)"

definition copyPayload :: "8 word list \<Rightarrow> nat \<Rightarrow> 8 word list \<Rightarrow> 8 word list" where
  "copyPayload payload n buf = fold (\<lambda>i b. b[1 + i := payload ! i]) [0..<n] buf"

definition frameBuf :: "8 word list \<Rightarrow> nat \<Rightarrow> 8 word list" where
  "frameBuf payload payloadLen =
     (copyPayload payload payloadLen ((replicate MAX_TOTAL_LEN 0)[0 := 0xF0]))[1 + payloadLen := 0xF7]"

definition substitute :: "8 word list \<Rightarrow> nat \<Rightarrow> nat \<Rightarrow> 8 word \<Rightarrow> 8 word list" where
  "substitute buf len varPos varValue =
     (if varPos \<noteq> 0 \<and> int varPos < int len - 1 then buf[varPos := varValue] else buf)"

text \<open>
  The trace frame of the build with \<^verbatim>\<open>OPENDECK_DEBUG_SYSEX_TRACE\<close>. The trace event
  points to \<^verbatim>\<open>traceBuf\<close>, an array of the inner block, and is published inside that
  block.
\<close>

definition traceBytes :: "nat \<Rightarrow> nat \<Rightarrow> nat \<Rightarrow> 8 word \<Rightarrow> 8 word list \<Rightarrow> 8 word list" where
  "traceBytes i len varPos varValue sysExBuf =
     [0xF0, 0x7D, 0x4F, 0x44, 0x01,
      of_nat i AND 0x7F, of_nat len AND 0x7F, of_nat varPos AND 0x7F, varValue AND 0x7F]
     @ concat (map (\<lambda>b. [drop_bit 4 b AND 0x0F, b AND 0x0F])
                   (take (if len < 8 then len else 8) sysExBuf))
     @ [0xF7]"

definition traceEvent :: "nat \<Rightarrow> nat \<Rightarrow> nat \<Rightarrow> 8 word \<Rightarrow> 8 word list \<Rightarrow> Event \<Rightarrow> Event" where
  "traceEvent i len varPos varValue sysExBuf e =
     (let bytes = traceBytes i len varPos varValue sysExBuf
      in e\<lparr>sysEx := LIVE (bytes @ replicate (64 - length bytes) 0),
            sysExLength := length bytes,
            message := MIDI_SYS_EX\<rparr>)"

text \<open>
  The statements of the case block after the test of the payload length, up to its closing
  brace: there the descriptor points to \<^verbatim>\<open>sysExBuf\<close>, an array of this block.
\<close>

definition customSysExBlock ::
  "'g Env \<Rightarrow> Database \<Rightarrow> nat \<Rightarrow> nat \<Rightarrow> Descriptor \<Rightarrow> 'g Buttons \<Rightarrow> 'g arm" where
  "customSysExBlock env db i payloadLen d s =
     (let len = (payloadLen + 2) mod 256;
          varPos = unat (ucast (index (event d) AND 0xFF) :: 8 word);
          varValue = (ucast (val (event d) AND 0x7F) :: 8 word);
          sysExBuf = substitute (frameBuf (payloadBuf db i) payloadLen) len varPos varValue;
          out = (if DEBUG_SYSEX_TRACE env
                 then [(BUTTON, traceEvent i len varPos varValue sysExBuf (event d))]
                 else [])
      in (True, BUTTON,
          setEvent (\<lambda>e. e\<lparr>sysEx := LIVE sysExBuf, sysExLength := len,
                          message := MIDI_SYS_EX\<rparr>) d,
          out, s))"

text \<open>
  The closing brace of the case block ends the lifetime of \<^verbatim>\<open>sysExBuf\<close>: the pointer
  that the descriptor holds dangles from there on. The events that were published inside
  the block have been read by then.
\<close>

fun leaveBlock :: "'g arm \<Rightarrow> 'g arm" where
  "leaveBlock (send, eventType, d, out, s) =
     (send, eventType, setEvent (\<lambda>e. e\<lparr>sysEx := DANGLING\<rparr>) d, out, s)"

definition customSysEx :: "'g Env \<Rightarrow> Database \<Rightarrow> nat \<Rightarrow> Descriptor \<Rightarrow> 'g Buttons \<Rightarrow> 'g arm" where
  "customSysEx env db i d s =
     (let payloadLen = unat (ucast (read_button db SYSEX_LENGTH i) :: 8 word)
      in if payloadLen = 0 \<or> MAX_PAYLOAD_LEN < payloadLen
         then (False, BUTTON, d, [], s)
         else leaveBlock (customSysExBlock env db i payloadLen d s))"

subsection \<open>The two switches and the final publication\<close>

definition sendPress :: "'g Env \<Rightarrow> Database \<Rightarrow> nat \<Rightarrow> Descriptor \<Rightarrow> 'g Buttons \<Rightarrow> 'g arm" where
  "sendPress env db i d s =
     (case messageType d of
        NOTE \<Rightarrow> (True, BUTTON, d, [], s)
      | CONTROL_CHANGE \<Rightarrow> (True, BUTTON, d, [], s)
      | CONTROL_CHANGE_RESET \<Rightarrow> (True, BUTTON, d, [], s)
      | REAL_TIME_CLOCK \<Rightarrow> (True, BUTTON, d, [], s)
      | REAL_TIME_START \<Rightarrow> (True, BUTTON, d, [], s)
      | REAL_TIME_CONTINUE \<Rightarrow> (True, BUTTON, d, [], s)
      | REAL_TIME_STOP \<Rightarrow> (True, BUTTON, d, [], s)
      | REAL_TIME_ACTIVE_SENSING \<Rightarrow> (True, BUTTON, d, [], s)
      | REAL_TIME_SYSTEM_RESET \<Rightarrow> (True, BUTTON, d, [], s)
      | MMC_PLAY \<Rightarrow> (True, BUTTON, d, [], s)
      | MMC_STOP \<Rightarrow> (True, BUTTON, d, [], s)
      | MMC_PAUSE \<Rightarrow> (True, BUTTON, d, [], s)
      | MMC_RECORD \<Rightarrow> (True, BUTTON, d, [], s)
      | MMC_PLAY_STOP \<Rightarrow> (True, BUTTON, d, [], s)
      | NOTE_LEGATO \<Rightarrow> legatoPress d s
      | PROGRAM_CHANGE \<Rightarrow>
          (True, BUTTON,
           setEvent (\<lambda>e. e\<lparr>val := 0,
                           index := (index e + program_offset env (globals s)) AND 0x7F\<rparr>) d,
           [], s)
      | PROGRAM_CHANGE_INC \<Rightarrow>
          (let (ok, g) = incrementProgram env (channel (event d)) 1 (globals s)
           in (ok, BUTTON,
               setEvent (\<lambda>e. e\<lparr>val := 0, index := program env (channel e) g\<rparr>) d,
               [], s\<lparr>globals := g\<rparr>))
      | PROGRAM_CHANGE_DEC \<Rightarrow>
          (let (ok, g) = decrementProgram env (channel (event d)) 1 (globals s)
           in (ok, BUTTON,
               setEvent (\<lambda>e. e\<lparr>val := 0, index := program env (channel e) g\<rparr>) d,
               [], s\<lparr>globals := g\<rparr>))
      | MULTI_VAL_INC_RESET_NOTE \<Rightarrow> multiVal env OVERFLOW True i d s
      | MULTI_VAL_INC_DEC_NOTE \<Rightarrow> multiVal env EDGE True i d s
      | MULTI_VAL_INC_RESET_CC \<Rightarrow> multiVal env OVERFLOW False i d s
      | MULTI_VAL_INC_DEC_CC \<Rightarrow> multiVal env EDGE False i d s
      | NOTE_OFF_ONLY \<Rightarrow>
          (True, BUTTON, setEvent (\<lambda>e. e\<lparr>val := 0, message := MIDI_NOTE_OFF\<rparr>) d, [], s)
      | CONTROL_CHANGE0_ONLY \<Rightarrow>
          (True, BUTTON, setEvent (\<lambda>e. e\<lparr>val := 0\<rparr>) d, [], s)
      | BANK_SELECT_PROGRAM_CHANGE \<Rightarrow> bankSelect d s
      | CUSTOM_SYS_EX \<Rightarrow> customSysEx env db i d s
      | PROGRAM_CHANGE_OFFSET_INC \<Rightarrow>
          (True, BUTTON, d, [], s\<lparr>globals := incrementOffset env (val (event d)) (globals s)\<rparr>)
      | PROGRAM_CHANGE_OFFSET_DEC \<Rightarrow>
          (True, BUTTON, d, [], s\<lparr>globals := decrementOffset env (val (event d)) (globals s)\<rparr>)
      | PRESET_CHANGE \<Rightarrow>
          (True, SYSTEM, setEvent (\<lambda>e. e\<lparr>systemMessage := PRESET_CHANGE_DIRECT_REQ\<rparr>) d, [], s)
      | BPM_INC \<Rightarrow>
          (let (ok, g) = bpm_increment env 1 (globals s)
           in (ok, BUTTON, setEvent (\<lambda>e. e\<lparr>val := 0, index := bpm_value env g\<rparr>) d,
               [], s\<lparr>globals := g\<rparr>))
      | BPM_DEC \<Rightarrow>
          (let (ok, g) = bpm_decrement env 1 (globals s)
           in (ok, BUTTON, setEvent (\<lambda>e. e\<lparr>val := 0, index := bpm_value env g\<rparr>) d,
               [], s\<lparr>globals := g\<rparr>))
      | NONE \<Rightarrow> (False, BUTTON, d, [], s))"

definition sendRelease :: "Descriptor \<Rightarrow> 'g Buttons \<Rightarrow> 'g arm" where
  "sendRelease d s =
     (case messageType d of
        NOTE \<Rightarrow>
          (True, BUTTON, setEvent (\<lambda>e. e\<lparr>val := 0, message := MIDI_NOTE_OFF\<rparr>) d, [], s)
      | NOTE_LEGATO \<Rightarrow> legatoRelease d s
      | CONTROL_CHANGE_RESET \<Rightarrow> (True, BUTTON, setEvent (\<lambda>e. e\<lparr>val := 0\<rparr>) d, [], s)
      | MMC_RECORD \<Rightarrow>
          (True, BUTTON, setEvent (\<lambda>e. e\<lparr>message := MIDI_MMC_RECORD_STOP\<rparr>) d, [], s)
      | MMC_PLAY_STOP \<Rightarrow>
          (True, BUTTON, setEvent (\<lambda>e. e\<lparr>message := MIDI_MMC_STOP\<rparr>) d, [], s)
      | _ \<Rightarrow> (False, BUTTON, d, [], s))"

text \<open>
  \<^verbatim>\<open>Buttons::sendMessage\<close>: the descriptor as written to, the events published in
  order, and the members.
\<close>

definition sendMessage ::
  "'g Env \<Rightarrow> Database \<Rightarrow> nat \<Rightarrow> bool \<Rightarrow> Descriptor \<Rightarrow> 'g Buttons \<Rightarrow> Descriptor \<times> bus \<times> 'g Buttons" where
  "sendMessage env db i st d s =
     (let (send, eventType, d1, out, s1) = (if st then sendPress env db i d s else sendRelease d s)
      in (d1, (if send then out @ [(eventType, event d1)] else out), s1))"

section \<open>Register-chromatic engine\<close>

definition saxChannel :: "Database \<Rightarrow> 8 word" where
  "saxChannel db =
     (let raw = (ucast (read_global db MIDI_SETTINGS_GLOBAL_CHANNEL 0) :: 8 word)
      in if 1 \<le> raw \<and> raw \<le> 16 then raw - 1 else 0)"

definition saxPressed :: "Database \<Rightarrow> 'g Buttons \<Rightarrow> nat \<Rightarrow> bool" where
  "saxPressed db s i =
     (let invertInputs = (read_system db SAX_REGISTER_CHROMATIC_INPUT_INVERT \<noteq> 0);
          pressed = state s i
      in if invertInputs then \<not> pressed else pressed)"

text \<open>
  The priority loop, from \<open>digitalCount - 1\<close> down to 0: the first pressed index, or
  \<open>-1\<close>.
\<close>

fun scanActiveKey :: "(nat \<Rightarrow> bool) \<Rightarrow> nat \<Rightarrow> int" where
  "scanActiveKey p 0 = - 1"
| "scanActiveKey p (Suc i) = (if p i then int i else scanActiveKey p i)"

definition saxKeyCount :: "'g Env \<Rightarrow> nat" where
  "saxKeyCount env =
     (if DIGITAL_INPUTS env < SAX_FINGERING_KEYS env then DIGITAL_INPUTS env
      else SAX_FINGERING_KEYS env)"

definition currentMask :: "'g Env \<Rightarrow> Database \<Rightarrow> 'g Buttons \<Rightarrow> 32 word" where
  "currentMask env db s =
     fold (\<lambda>i m. if saxPressed db s i then m OR push_bit i 1 else m) [0..<saxKeyCount env] 0"

function popcount32 :: "32 word \<Rightarrow> 8 word \<Rightarrow> 8 word" where
  "popcount32 v c = (if v = 0 then c else popcount32 (drop_bit 1 v) (c + ucast (v AND 1)))"
  by pat_completeness auto
termination
proof (relation "measure (\<lambda>(v, c). unat v)")
  show "wf (measure (\<lambda>(v :: 32 word, c :: 8 word). unat v))"
    by simp
next
  fix v :: "32 word" and c :: "8 word"
  assume "v \<noteq> 0"
  then have "unat v \<noteq> 0"
    by (simp add: unat_eq_0)
  then have "unat v div 2 < unat v"
    by simp
  then show "((drop_bit 1 v, c + ucast (v AND 1)), (v, c)) \<in> measure (\<lambda>(v, c). unat v)"
    by (simp add: drop_bit_eq_div unat_div)
qed

text \<open>The equation of the loop is no simp rule: it would unfold for ever.\<close>

declare popcount32.simps [simp del]

definition HI_BITS :: "'g Env \<Rightarrow> nat" where
  "HI_BITS env = nat ((int (SAX_FINGERING_KEYS env) - 14) mod 256)"

definition HI_MASK :: "'g Env \<Rightarrow> 16 word" where
  "HI_MASK env = ucast (push_bit (HI_BITS env) (1 :: 32 word) - 1)"

definition ENABLE_MASK :: "'g Env \<Rightarrow> 16 word" where
  "ENABLE_MASK env = ucast (push_bit (HI_BITS env) (1 :: 32 word))"

definition entryEnabled :: "'g Env \<Rightarrow> Database \<Rightarrow> nat \<Rightarrow> bool" where
  "entryEnabled env db entry =
     ((ucast (read_global db SAX_FINGERING_MASK_HI10_ENABLE entry) :: 16 word) AND ENABLE_MASK env \<noteq> 0)"

definition entryMask :: "'g Env \<Rightarrow> Database \<Rightarrow> nat \<Rightarrow> 32 word" where
  "entryMask env db entry =
     (let hiEn = (ucast (read_global db SAX_FINGERING_MASK_HI10_ENABLE entry) :: 16 word);
          lo14 = (ucast (read_global db SAX_FINGERING_MASK_LO14 entry) :: 16 word);
          hi = hiEn AND HI_MASK env;
          mask = (ucast lo14 :: 32 word) OR push_bit 14 (ucast hi :: 32 word)
      in if saxKeyCount env < SAX_FINGERING_KEYS env
         then mask AND (if saxKeyCount env = 0 then 0 else push_bit (saxKeyCount env) 1 - 1)
         else mask AND (if 32 \<le> SAX_FINGERING_KEYS env then 0xFFFFFFFF
                        else push_bit (SAX_FINGERING_KEYS env) 1 - 1))"

definition entryNote :: "Database \<Rightarrow> nat \<Rightarrow> 16 word" where
  "entryNote db entry = ucast (read_global db SAX_FINGERING_NOTE entry)"

record TableScan =
  anyEnabled :: bool
  hasMatch :: bool
  bestScore :: "8 word"
  bestNote :: "8 word"

text \<open>One round of the loop over the table entries; \<^verbatim>\<open>continue\<close> returns the state as it is.\<close>

definition tableStep :: "'g Env \<Rightarrow> Database \<Rightarrow> 32 word \<Rightarrow> nat \<Rightarrow> TableScan \<Rightarrow> TableScan" where
  "tableStep env db cur entry t =
     (if \<not> entryEnabled env db entry then t
      else
        (let t1 = t\<lparr>anyEnabled := True\<rparr>;
             mask = entryMask env db entry
         in if mask AND cur \<noteq> mask then t1
            else
              (let score = popcount32 mask 0
               in if \<not> hasMatch t1 \<or> bestScore t1 < score
                  then (let noteWide = entryNote db entry
                        in if 127 < noteWide then t1
                           else t1\<lparr>bestScore := score, bestNote := ucast noteWide,
                                   hasMatch := True\<rparr>)
                  else t1)))"

definition tableScan :: "'g Env \<Rightarrow> Database \<Rightarrow> 32 word \<Rightarrow> TableScan" where
  "tableScan env db cur =
     fold (tableStep env db cur) [0..<SAX_FINGERING_TABLE_ENTRIES env]
       \<lparr>anyEnabled = False, hasMatch = False, bestScore = 0, bestNote = 0\<rparr>"

text \<open>\<^verbatim>\<open>messaging::Event event = {}\<close>\<close>

definition emptyEvent :: Event where
  "emptyEvent =
     \<lparr>componentIndex = 0, channel = 0, index = 0, val = 0, message = MIDI_OTHER 0,
      sysEx = NULLPTR, sysExLength = 0, systemMessage = SYS_MSG_DEFAULT\<rparr>"

definition saxOffEvent :: "8 word \<Rightarrow> 8 word \<Rightarrow> Event" where
  "saxOffEvent ch note =
     emptyEvent\<lparr>componentIndex := 0, channel := ch, index := ucast note, val := 0,
                message := MIDI_NOTE_OFF\<rparr>"

definition saxOnEvent :: "8 word \<Rightarrow> 8 word \<Rightarrow> Event" where
  "saxOnEvent ch note =
     emptyEvent\<lparr>componentIndex := 0, channel := ch, index := ucast note, val := 127,
                message := MIDI_NOTE_ON\<rparr>"

text \<open>The branch that turns a sounding note off and returns.\<close>

definition saxSilence :: "8 word \<Rightarrow> 'g Buttons \<Rightarrow> bus \<times> 'g Buttons" where
  "saxSilence ch s =
     (if saxNoteOn s then ([(BUTTON, saxOffEvent ch (saxActiveNote s))], s\<lparr>saxNoteOn := False\<rparr>)
      else ([], s))"

text \<open>The branch that moves the sounding note to \<open>newNote\<close>.\<close>

definition saxSound :: "8 word \<Rightarrow> 8 word \<Rightarrow> 'g Buttons \<Rightarrow> bus \<times> 'g Buttons" where
  "saxSound ch newNote s =
     (if saxNoteOn s \<and> saxActiveNote s = newNote then ([], s)
      else ((if saxNoteOn s then [(BUTTON, saxOffEvent ch (saxActiveNote s))] else [])
            @ [(BUTTON, saxOnEvent ch newNote)],
            s\<lparr>saxActiveNote := newNote, saxNoteOn := True\<rparr>))"

text \<open>The clamp of the signed 16-bit \<^verbatim>\<open>noteWide\<close> and the narrowing to a byte.\<close>

definition clampNote :: "16 word \<Rightarrow> 8 word" where
  "clampNote noteWide =
     ucast (if noteWide <s 0 then 0 else if 127 <s noteWide then 127 else noteWide)"

definition saxTranspose :: "Database \<Rightarrow> 16 word" where
  "saxTranspose db =
     (let transposeRaw = (ucast (read_system db SAX_REGISTER_CHROMATIC_TRANSPOSE) :: 16 word)
      in transposeRaw - 24)"

definition mappedKey :: "'g Env \<Rightarrow> Database \<Rightarrow> nat \<Rightarrow> 16 word" where
  "mappedKey env db activeKey =
     (let mapRaw = (ucast (read_button db SAX_REGISTER_KEY_MAP activeKey) :: 8 word);
          m = (if mapRaw = 0 then (of_nat activeKey :: 16 word) else ucast (mapRaw - 1))
      in if DIGITAL_INPUTS env \<le> unat m then of_nat activeKey else m)"

definition processSaxRegisterChromatic :: "'g Env \<Rightarrow> Database \<Rightarrow> 'g Buttons \<Rightarrow> bus \<times> 'g Buttons" where
  "processSaxRegisterChromatic env db s =
     (let base = (ucast (read_system db SAX_REGISTER_CHROMATIC_BASE_NOTE) :: 8 word);
          transpose = saxTranspose db;
          activeKey = scanActiveKey (saxPressed db s) (DIGITAL_INPUTS env);
          ch = saxChannel db;
          cur = currentMask env db s;
          t = tableScan env db cur
      in if anyEnabled t
         then (if \<not> hasMatch t \<or> cur = 0 then saxSilence ch s
               else saxSound ch (clampNote (ucast (bestNote t) + transpose)) s)
         else if activeKey < 0 then saxSilence ch s
         else saxSound ch
                (clampNote (ucast base + mappedKey env db (nat activeKey) + transpose)) s)"

section \<open>Edge processing\<close>

text \<open>
  The condition under which the register-chromatic engine takes the edge: the feature is
  compiled in, the index is a digital input, and the setting is on.
\<close>

definition saxOverride :: "'g Env \<Rightarrow> Database \<Rightarrow> nat \<Rightarrow> bool" where
  "saxOverride env db i =
     (SAX_REGISTER_CHROMATIC env \<and> i < DIGITAL_INPUTS env
      \<and> read_system db SAX_REGISTER_CHROMATIC_ENABLE \<noteq> 0)"

definition processButton ::
  "'g Env \<Rightarrow> Database \<Rightarrow> nat \<Rightarrow> bool \<Rightarrow> Descriptor \<Rightarrow> 'g Buttons \<Rightarrow> Descriptor \<times> bus \<times> 'g Buttons" where
  "processButton env db i reading d s =
     (if reading = state s i then (d, [], s)
      else
        (let s1 = setState i reading s
         in if saxOverride env db i
            then (let (out, s2) = processSaxRegisterChromatic env db s1 in (d, out, s2))
            else if messageType d \<noteq> NONE
            then (if btype d = LATCHING \<and> messageType d \<noteq> NOTE_LEGATO
                  then (if reading
                        then (if latchingState s1 i
                              then sendMessage env db i False d (setLatchingState i False s1)
                              else sendMessage env db i True d (setLatchingState i True s1))
                        else (d, [], s1))
                  else sendMessage env db i reading d s1)
            else (d, [], s1)))"

section \<open>Configuration adapter\<close>

definition sysConfigSet ::
  "'g Env \<Rightarrow> sys_button_t \<Rightarrow> nat \<Rightarrow> 16 word \<Rightarrow> Database \<Rightarrow> 'g Buttons
     \<Rightarrow> status_t option \<times> Database \<times> 'g Buttons" where
  "sysConfigSet env section i v db s =
     (let (ok, db1) = db_update env (SYS_2_DB_SECTION env section) i (ucast v) db;
          result = (if ok then ACK else ERROR_WRITE)
      in (Some result, db1,
          if result = ACK \<and> (section = SYS_TYPE \<or> section = SYS_MESSAGE_TYPE) then reset i s
          else s))"

section \<open>Notions used by the properties\<close>

text \<open>
  The engine does not check an index against its arrays. The properties are about the
  indices of the collection: inside both bit arrays, and small enough for the byte-sized
  \<^verbatim>\<open>arrayIndex\<close>.
\<close>

definition inRange :: "'g Buttons \<Rightarrow> nat \<Rightarrow> bool" where
  "inRange s i =
     (i < 8 * length (buttonPressed s) \<and> i < 8 * length (lastLatchingState s) \<and> i < 2048)"

abbreviation published :: "'a \<times> 'b \<times> 'c \<Rightarrow> 'b" where
  "published r \<equiv> fst (snd r)"

abbreviation members :: "'a \<times> 'b \<times> 'c \<Rightarrow> 'c" where
  "members r \<equiv> snd (snd r)"

text \<open>
  The bytes that a reader of a SysEx event finds: the first \<open>sysExLength\<close> bytes of the
  array, when the pointer is to an array that is alive; nothing otherwise.
\<close>

definition wireFrame :: "Event \<Rightarrow> 8 word list option" where
  "wireFrame e =
     (case sysEx e of
        LIVE bytes \<Rightarrow> Some (take (sysExLength e) bytes)
      | NULLPTR \<Rightarrow> None
      | DANGLING \<Rightarrow> None)"

text \<open>The descriptor of an arm, as written to.\<close>

definition armDescriptor :: "'g arm \<Rightarrow> Descriptor" where
  "armDescriptor a = fst (snd (snd a))"

text \<open>
  The wire layout of the stored payload in the spec's words: payload byte \<open>k\<close> is the
  low seven bits of stored word \<open>k div 2\<close> when \<open>k\<close> is even, and the next seven bits
  when \<open>k\<close> is odd.
\<close>

definition sysexWord :: "Database \<Rightarrow> nat \<Rightarrow> nat \<Rightarrow> 16 word" where
  "sysexWord db i k = ucast (read_button db (SYSEX_DATA k) i)"

definition payloadByte :: "Database \<Rightarrow> nat \<Rightarrow> nat \<Rightarrow> 8 word" where
  "payloadByte db i k =
     (if even k then ucast (sysexWord db i (k div 2) AND 0x7F)
      else ucast (drop_bit 7 (sysexWord db i (k div 2)) AND 0x7F))"

text \<open>
  The contents of \<^verbatim>\<open>sysExBuf\<close> at the end of the case block, for a press of a custom
  SysEx input with payload length \<open>n\<close>.
\<close>

definition sysExFrame :: "Database \<Rightarrow> nat \<Rightarrow> Descriptor \<Rightarrow> nat \<Rightarrow> 8 word list" where
  "sysExFrame db i d n =
     substitute (frameBuf (payloadBuf db i) n) (n + 2)
       (unat (ucast (index (event d) AND 0xFF) :: 8 word))
       (ucast (val (event d) AND 0x7F))"

text \<open>
  A sequence of edges, each with the index, the reading and the descriptor that the
  resolver filled for it: the events published by each call, and the members at the end.
\<close>

fun processAll ::
  "'g Env \<Rightarrow> Database \<Rightarrow> (nat \<times> bool \<times> Descriptor) list \<Rightarrow> 'g Buttons \<Rightarrow> bus list \<times> 'g Buttons" where
  "processAll env db [] s = ([], s)"
| "processAll env db ((i, reading, d) # es) s =
     (let r = processButton env db i reading d s;
          (outs, s') = processAll env db es (members r)
      in (published r # outs, s'))"

text \<open>A legato input on channel \<open>ch\<close> mapped to \<open>note\<close> (0 to 127).\<close>

definition legatoInput :: "nat \<Rightarrow> 16 word \<Rightarrow> Descriptor \<Rightarrow> bool" where
  "legatoInput ch note d =
     (messageType d = NOTE_LEGATO \<and> unat (channel (event d) AND 0x0F) = ch
      \<and> index (event d) = note \<and> note < 128)"

definition noteOn :: "Descriptor \<Rightarrow> eventType_t \<times> Event" where
  "noteOn d = (BUTTON, (event d)\<lparr>message := MIDI_NOTE_ON\<rparr>)"

definition noteOff :: "Descriptor \<Rightarrow> 16 word \<Rightarrow> eventType_t \<times> Event" where
  "noteOff d note = (BUTTON, (event d)\<lparr>index := note, val := 0, message := MIDI_NOTE_OFF\<rparr>)"

text \<open>The two legato arrays have an element for channel \<open>ch\<close>.\<close>

definition legatoReady :: "'g Buttons \<Rightarrow> nat \<Rightarrow> bool" where
  "legatoReady s ch = (ch < length (legatoButtonCount s) \<and> ch < length (legatoActiveNote s))"

text \<open>
  The toggle of a latching input in the spec's words, for \<open>n\<close> presses each followed by
  its release, with \<open>phase\<close> the phase emitted last: a press emits the other phase
  (the kind's "on" behaviour when it is true, its "off" behaviour when it is false) with
  the latch set to it, and the release emits nothing.
\<close>

fun toggleSpec ::
  "'g Env \<Rightarrow> Database \<Rightarrow> nat \<Rightarrow> Descriptor \<Rightarrow> nat \<Rightarrow> bool \<Rightarrow> 'g Buttons \<Rightarrow> bus list \<times> 'g Buttons" where
  "toggleSpec env db i d 0 phase s = ([], s)"
| "toggleSpec env db i d (Suc n) phase s =
     (let r = sendMessage env db i (\<not> phase) d
                (setLatchingState i (\<not> phase) (setState i True s));
          (outs, s') = toggleSpec env db i d n (\<not> phase) (setState i False (members r))
      in (published r # [] # outs, s'))"

text \<open>The edges of \<open>n\<close> presses of input \<open>i\<close>, each followed by its release.\<close>

definition pressRelease :: "nat \<Rightarrow> Descriptor \<Rightarrow> nat \<Rightarrow> (nat \<times> bool \<times> Descriptor) list" where
  "pressRelease i d n = concat (replicate n [(i, True, d), (i, False, d)])"

text \<open>A latching input that the toggle applies to.\<close>

definition latchingKind :: "Descriptor \<Rightarrow> bool" where
  "latchingKind d =
     (btype d = LATCHING \<and> messageType d \<noteq> NONE \<and> messageType d \<noteq> NOTE_LEGATO)"

text \<open>
  Legacy mode in the spec's words. The remap of key \<open>k\<close>: a stored 0 is the identity,
  otherwise the target is the stored value less one, and a target at or beyond the number
  of digital inputs falls back to the identity. The target note: base note plus remapped
  key plus transpose (the stored transpose less 24), clamped to 0..127.
\<close>

definition legacyRemap :: "'g Env \<Rightarrow> Database \<Rightarrow> nat \<Rightarrow> nat" where
  "legacyRemap env db k =
     (let stored = unat (ucast (read_button db SAX_REGISTER_KEY_MAP k) :: 8 word)
      in if stored = 0 then k
         else if DIGITAL_INPUTS env \<le> stored - 1 then k
         else stored - 1)"

definition legacyNote :: "'g Env \<Rightarrow> Database \<Rightarrow> nat \<Rightarrow> int" where
  "legacyNote env db k =
     max 0 (min 127
       (int (unat (ucast (read_system db SAX_REGISTER_CHROMATIC_BASE_NOTE) :: 8 word))
        + int (legacyRemap env db k)
        + (int (unat (ucast (read_system db SAX_REGISTER_CHROMATIC_TRANSPOSE) :: 16 word)) - 24)))"

text \<open>\<open>k\<close> is the highest index below \<open>n\<close> that counts as pressed.\<close>

definition highestPressed :: "(nat \<Rightarrow> bool) \<Rightarrow> nat \<Rightarrow> nat \<Rightarrow> bool" where
  "highestPressed p n k = (k < n \<and> p k \<and> (\<forall>j. k < j \<and> j < n \<longrightarrow> \<not> p j))"

text \<open>The score that the scan computes for an entry.\<close>

definition entryScore :: "'g Env \<Rightarrow> Database \<Rightarrow> nat \<Rightarrow> 8 word" where
  "entryScore env db e = popcount32 (entryMask env db e) 0"

text \<open>
  An entry that can supply the note: enabled, its mask (restricted to the active keys) a
  subset of the current mask, and its stored note at most 127.
\<close>

definition tableCandidate :: "'g Env \<Rightarrow> Database \<Rightarrow> 32 word \<Rightarrow> nat \<Rightarrow> bool" where
  "tableCandidate env db cur e =
     (entryEnabled env db e \<and> entryMask env db e AND cur = entryMask env db e
      \<and> entryNote db e \<le> 127)"

text \<open>The best entry among the first \<open>n\<close>, in terms of the computed scores.\<close>

definition scanWinner :: "'g Env \<Rightarrow> Database \<Rightarrow> 32 word \<Rightarrow> nat \<Rightarrow> nat \<Rightarrow> bool" where
  "scanWinner env db cur n w =
     (w < n \<and> tableCandidate env db cur w
      \<and> (\<forall>e. e < n \<and> tableCandidate env db cur e \<longrightarrow> entryScore env db e \<le> entryScore env db w)
      \<and> (\<forall>e. e < w \<and> tableCandidate env db cur e \<longrightarrow> entryScore env db e < entryScore env db w))"

text \<open>The state of the scan after the entries below \<open>m\<close>.\<close>

definition scanned :: "'g Env \<Rightarrow> Database \<Rightarrow> 32 word \<Rightarrow> nat \<Rightarrow> TableScan" where
  "scanned env db cur m =
     fold (tableStep env db cur) [0..<m]
       \<lparr>anyEnabled = False, hasMatch = False, bestScore = 0, bestNote = 0\<rparr>"

text \<open>
  Table mode in the spec's words: the score of an entry is the population count of its
  mask; the winner has the highest count among the candidates, and a strictly higher
  count than every candidate scanned before it.
\<close>

definition maskBits :: "'g Env \<Rightarrow> Database \<Rightarrow> nat \<Rightarrow> nat" where
  "maskBits env db e = card {i. bit (entryMask env db e) i}"

definition tableWinner :: "'g Env \<Rightarrow> Database \<Rightarrow> 32 word \<Rightarrow> nat \<Rightarrow> bool" where
  "tableWinner env db cur w =
     (w < SAX_FINGERING_TABLE_ENTRIES env \<and> tableCandidate env db cur w
      \<and> (\<forall>e. e < SAX_FINGERING_TABLE_ENTRIES env \<and> tableCandidate env db cur e
             \<longrightarrow> maskBits env db e \<le> maskBits env db w)
      \<and> (\<forall>e. e < w \<and> tableCandidate env db cur e \<longrightarrow> maskBits env db e < maskBits env db w))"

section \<open>Concrete configurations\<close>

text \<open>
  A small build for evaluating the engine: five digital inputs, the register-chromatic
  engine compiled in, 24 fingering keys, two table entries, no trace frame. The
  collaborators are the simplest ones: counters that never move, a store whose update
  refuses values above 127.
\<close>

definition env0 :: "unit Env" where
  "env0 =
     \<lparr>SAX_REGISTER_CHROMATIC = True, DEBUG_SYSEX_TRACE = False, DIGITAL_INPUTS = 5,
      SAX_FINGERING_KEYS = 24, SAX_FINGERING_TABLE_ENTRIES = 2,
      program_offset = (\<lambda>g. 0),
      incrementProgram = (\<lambda>ch steps g. (True, g)),
      decrementProgram = (\<lambda>ch steps g. (True, g)),
      program = (\<lambda>ch g. 0),
      incrementOffset = (\<lambda>steps g. g),
      decrementOffset = (\<lambda>steps g. g),
      bpm_increment = (\<lambda>steps g. (True, g)),
      bpm_decrement = (\<lambda>steps g. (True, g)),
      bpm_value = (\<lambda>g. 120),
      valueIncrement = (\<lambda>v step t. v),
      SYS_2_DB_SECTION =
        (\<lambda>sec. (case sec of SYS_TYPE \<Rightarrow> BUTTON_TYPE | SYS_MESSAGE_TYPE \<Rightarrow> MESSAGE_TYPE
                  | SYS_SECTION n \<Rightarrow> CHANNEL)),
      db_update =
        (\<lambda>sec i v db.
           (v < 128,
            db\<lparr>read_button :=
                 (\<lambda>sec' i'. if sec' = sec \<and> i' = i then v else read_button db sec' i')\<rparr>))\<rparr>"

text \<open>The store with every value 0, and the members after \<^verbatim>\<open>init\<close> (16 inputs).\<close>

definition db0 :: Database where
  "db0 = \<lparr>read_button = (\<lambda>sec i. 0), read_system = (\<lambda>x. 0), read_global = (\<lambda>sec i. 0)\<rparr>"

definition s0 :: "unit Buttons" where
  "s0 =
     \<lparr>buttonPressed = replicate 2 0, lastLatchingState = replicate 2 0,
      incDecValue = replicate 16 0, legatoButtonCount = replicate 16 0,
      legatoActiveNote = replicate 16 0, saxNoteOn = False, saxActiveNote = 0,
      globals = ()\<rparr>"

text \<open>The store with the register-chromatic mode enabled: base note 60, transpose 0.\<close>

definition dbSax :: Database where
  "dbSax =
     db0\<lparr>read_system :=
           (\<lambda>x. if x = SAX_REGISTER_CHROMATIC_ENABLE then 1
                else if x = SAX_REGISTER_CHROMATIC_BASE_NOTE then 60
                else if x = SAX_REGISTER_CHROMATIC_TRANSPOSE then 24
                else 0)\<rparr>"

text \<open>Input 3 held, with its latch set.\<close>

definition sHeld :: "unit Buttons" where
  "sHeld = setLatchingState 3 True (setState 3 True s0)"

definition descriptor :: "type_t \<Rightarrow> messageType_t \<Rightarrow> 8 word \<Rightarrow> 16 word \<Rightarrow> 16 word \<Rightarrow> Descriptor" where
  "descriptor ty kind ch ident v =
     \<lparr>btype = ty, messageType = kind,
      event = emptyEvent\<lparr>channel := ch, index := ident, val := v\<rparr>\<rparr>"

text \<open>What a subscriber reads of each published event: tag, kind, channel, identifier, value.\<close>

definition wire :: "bus \<Rightarrow> (eventType_t \<times> midi_messageType_t \<times> 8 word \<times> 16 word \<times> 16 word) list" where
  "wire out = map (\<lambda>(t, e). (t, message e, channel e, index e, val e)) out"

text \<open>A custom SysEx payload of length 3: stored words \<open>0x0201\<close>, \<open>0x0003\<close>.\<close>

definition dbSysEx :: Database where
  "dbSysEx =
     db0\<lparr>read_button :=
           (\<lambda>sec i. if sec = SYSEX_LENGTH then 3
                    else if sec = SYSEX_DATA 0 then 0x0201
                    else if sec = SYSEX_DATA 1 then 0x0003
                    else 0)\<rparr>"

text \<open>Channel 0 with \<open>c\<close> legato inputs held and note 64 sounding.\<close>

definition sLegato :: "8 word \<Rightarrow> unit Buttons" where
  "sLegato c =
     s0\<lparr>legatoButtonCount := (replicate 16 0)[0 := c],
        legatoActiveNote := (replicate 16 0)[0 := 64]\<rparr>"

text \<open>A momentary legato input on channel 0 with velocity 127.\<close>

definition dLegato :: "16 word \<Rightarrow> Descriptor" where
  "dLegato note = descriptor MOMENTARY NOTE_LEGATO 0 note 127"

text \<open>A latching note input as the resolver fills it: note 60, velocity 127, Note On.\<close>

definition dLatchNote :: Descriptor where
  "dLatchNote = setEvent (\<lambda>e. e\<lparr>message := MIDI_NOTE_ON\<rparr>) (descriptor LATCHING NOTE 0 60 127)"

text \<open>Key 2 held while note 64 sounds (keys 2 and 4 were held, key 4 is just released).\<close>

definition sKey2 :: "unit Buttons" where
  "sKey2 = s0\<lparr>buttonPressed := [4, 0], saxNoteOn := True, saxActiveNote := 64\<rparr>"

text \<open>The register-chromatic store with the input inversion on.\<close>

definition dbSaxInvert :: Database where
  "dbSaxInvert =
     db0\<lparr>read_system :=
           (\<lambda>x. if x = SAX_REGISTER_CHROMATIC_ENABLE then 1
                else if x = SAX_REGISTER_CHROMATIC_BASE_NOTE then 60
                else if x = SAX_REGISTER_CHROMATIC_TRANSPOSE then 24
                else 1)\<rparr>"

text \<open>Key 0 held, nothing sounding.\<close>

definition sKey0 :: "unit Buttons" where
  "sKey0 = s0\<lparr>buttonPressed := [1, 0]\<rparr>"

text \<open>
  The register-chromatic store with the two table entries enabled (the enable bit is bit 10
  of the high word), with the given low mask words and notes.
\<close>

definition dbTableOf :: "32 word \<Rightarrow> 32 word \<Rightarrow> 32 word \<Rightarrow> 32 word \<Rightarrow> Database" where
  "dbTableOf mask0 note0 mask1 note1 =
     dbSax\<lparr>read_global :=
           (\<lambda>sec e. if sec = SAX_FINGERING_MASK_HI10_ENABLE then (if e < 2 then 1024 else 0)
                    else if sec = SAX_FINGERING_MASK_LO14 then (if e = 0 then mask0 else mask1)
                    else if sec = SAX_FINGERING_NOTE then (if e = 0 then note0 else note1)
                    else 0)\<rparr>"

definition dbTable :: Database where
  "dbTable = dbTableOf 3 60 7 72"

definition dbTableTie :: Database where
  "dbTableTie = dbTableOf 3 60 5 72"

definition dbTableUnset :: Database where
  "dbTableUnset = dbTableOf 3 60 7 200"

text \<open>Keys 0, 1, 2 held, and keys 0, 1 held; nothing sounding.\<close>

definition sKeys012 :: "unit Buttons" where
  "sKeys012 = s0\<lparr>buttonPressed := [7, 0]\<rparr>"

definition sKeys01 :: "unit Buttons" where
  "sKeys01 = s0\<lparr>buttonPressed := [3, 0]\<rparr>"

section \<open>Word facts\<close>

lemma mask_numerals:
  "(127 :: 'a::len word) = mask 7" "(16383 :: 'a::len word) = mask 14"
  "(255 :: 'a::len word) = mask 8" "(15 :: 'a::len word) = mask 4"
  by (simp_all add: mask_eq_exp_minus_1)

lemma ucast_ucast_and_7F:
  "(ucast (ucast (x AND 127 :: 16 word) :: 8 word) :: 16 word) = x AND 127"
  by (rule bit_word_eqI) (auto simp: mask_numerals bit_simps)

lemma drop7_and_3FFF:
  "drop_bit 7 (v AND 16383 :: 16 word) AND 127 = drop_bit 7 v AND 127"
  by (rule bit_word_eqI) (auto simp: mask_numerals bit_simps)

lemma and_3FFF_and_7F:
  "(v AND 16383 :: 16 word) AND 127 = v AND 127"
  by (rule bit_word_eqI) (auto simp: mask_numerals bit_simps)

section \<open>Bank select and program change\<close>

text \<open>
  C5: a press of a \<open>BANK_SELECT_PROGRAM_CHANGE\<close> input with configured value \<open>v\<close> and
  identifier \<open>id\<close> publishes exactly three events, in this order: Control Change 0 with
  value \<open>(v >> 7) & 0x7F\<close>, Control Change 32 with value \<open>v & 0x7F\<close>, Program Change
  with program \<open>id & 0x7F\<close> and value 0. The input's own event is not published, and
  neither the descriptor nor the members change.
\<close>

theorem bank_select_press:
  "messageType d = BANK_SELECT_PROGRAM_CHANGE \<Longrightarrow>
   sendMessage env db i True d s =
     (d,
      [(BUTTON, (event d)\<lparr>message := MIDI_CONTROL_CHANGE, index := 0,
                           val := drop_bit 7 (val (event d)) AND 0x7F\<rparr>),
       (BUTTON, (event d)\<lparr>message := MIDI_CONTROL_CHANGE, index := 32,
                           val := val (event d) AND 0x7F\<rparr>),
       (BUTTON, (event d)\<lparr>message := MIDI_PROGRAM_CHANGE, index := index (event d) AND 0x7F,
                           val := 0\<rparr>)],
      s)"
  by (simp add: sendMessage_def sendPress_def bankSelect_def ucast_ucast_and_7F
      drop7_and_3FFF and_3FFF_and_7F)

text \<open>The example of the guide: value 391 and identifier 12 give CC0 = 3, CC32 = 7, PC = 12.\<close>

theorem bank_select_press_witness:
  "messageType (descriptor MOMENTARY BANK_SELECT_PROGRAM_CHANGE 0 12 391)
     = BANK_SELECT_PROGRAM_CHANGE
   \<and> wire (fst (snd (sendMessage env0 db0 0 True
                       (descriptor MOMENTARY BANK_SELECT_PROGRAM_CHANGE 0 12 391) s0)))
     = [(BUTTON, MIDI_CONTROL_CHANGE, 0, 0, 3),
        (BUTTON, MIDI_CONTROL_CHANGE, 0, 32, 7),
        (BUTTON, MIDI_PROGRAM_CHANGE, 0, 12, 0)]"
  using bank_select_press [of "descriptor MOMENTARY BANK_SELECT_PROGRAM_CHANGE 0 12 391" env0 db0 0 s0]
  by (simp add: descriptor_def wire_def emptyEvent_def)

section \<open>The bit arrays\<close>

lemma BIT_READ_bit: "BIT_READ v b = bit v b"
  by (simp add: BIT_READ_def and_one_eq bit_iff_odd_drop_bit odd_iff_mod_2_eq_one)

lemma BIT_READ_WRITE:
  "b < 8 \<Longrightarrow> BIT_READ (BIT_WRITE v b x) b' = (if b' = b then x else BIT_READ v b')"
  by (auto simp: BIT_READ_bit BIT_WRITE_def bit_simps dest: bit_imp_le_length)

lemma arrayIndex_small: "i < 2048 \<Longrightarrow> arrayIndex i = i div 8"
  by (simp add: arrayIndex_def)

lemma bitIndex_small: "i < 2048 \<Longrightarrow> bitIndex i = i mod 8"
  by (simp add: bitIndex_def arrayIndex_small minus_mult_div_eq_mod)

lemma index_split: "i div 8 = j div 8 \<Longrightarrow> i mod 8 = j mod 8 \<Longrightarrow> i = (j::nat)"
  by (metis div_mult_mod_eq)

lemma state_setState:
  assumes "inRange s i" "inRange s j"
  shows "state (setState i x s) j = (if j = i then x else state s j)"
proof -
  from assms have i: "i < 2048" "i div 8 < length (buttonPressed s)" and j: "j < 2048"
    by (auto simp: inRange_def)
  show ?thesis
  proof (cases "j div 8 = i div 8")
    case True
    then have "j = i \<longleftrightarrow> j mod 8 = i mod 8"
      using index_split by blast
    with True i j show ?thesis
      by (simp add: state_def setState_def arrayIndex_small bitIndex_small BIT_READ_WRITE)
  next
    case False
    with i j show ?thesis
      by (auto simp: state_def setState_def arrayIndex_small bitIndex_small)
  qed
qed

lemma latchingState_setLatchingState:
  assumes "inRange s i" "inRange s j"
  shows "latchingState (setLatchingState i x s) j = (if j = i then x else latchingState s j)"
proof -
  from assms have i: "i < 2048" "i div 8 < length (lastLatchingState s)" and j: "j < 2048"
    by (auto simp: inRange_def)
  show ?thesis
  proof (cases "j div 8 = i div 8")
    case True
    then have "j = i \<longleftrightarrow> j mod 8 = i mod 8"
      using index_split by blast
    with True i j show ?thesis
      by (simp add: latchingState_def setLatchingState_def arrayIndex_small bitIndex_small
          BIT_READ_WRITE)
  next
    case False
    with i j show ?thesis
      by (auto simp: latchingState_def setLatchingState_def arrayIndex_small bitIndex_small)
  qed
qed

lemma setState_fields [simp]:
  "lastLatchingState (setState i x s) = lastLatchingState s"
  "incDecValue (setState i x s) = incDecValue s"
  "legatoButtonCount (setState i x s) = legatoButtonCount s"
  "legatoActiveNote (setState i x s) = legatoActiveNote s"
  "saxNoteOn (setState i x s) = saxNoteOn s"
  "saxActiveNote (setState i x s) = saxActiveNote s"
  "globals (setState i x s) = globals s"
  "length (buttonPressed (setState i x s)) = length (buttonPressed s)"
  by (simp_all add: setState_def)

lemma setLatchingState_fields [simp]:
  "buttonPressed (setLatchingState i x s) = buttonPressed s"
  "incDecValue (setLatchingState i x s) = incDecValue s"
  "legatoButtonCount (setLatchingState i x s) = legatoButtonCount s"
  "legatoActiveNote (setLatchingState i x s) = legatoActiveNote s"
  "saxNoteOn (setLatchingState i x s) = saxNoteOn s"
  "saxActiveNote (setLatchingState i x s) = saxActiveNote s"
  "globals (setLatchingState i x s) = globals s"
  "length (lastLatchingState (setLatchingState i x s)) = length (lastLatchingState s)"
  by (simp_all add: setLatchingState_def)

text \<open>Reading a bit depends on its array only. (Not simp rules: they would loop.)\<close>

lemma state_cong: "buttonPressed s' = buttonPressed s \<Longrightarrow> state s' i = state s i"
  by (simp add: state_def)

lemma latchingState_cong:
  "lastLatchingState s' = lastLatchingState s \<Longrightarrow> latchingState s' i = latchingState s i"
  by (simp add: latchingState_def)

lemma inRange_cong:
  "length (buttonPressed s') = length (buttonPressed s) \<Longrightarrow>
   length (lastLatchingState s') = length (lastLatchingState s) \<Longrightarrow> inRange s' i = inRange s i"
  by (simp add: inRange_def)

lemma inRange_setState [simp]: "inRange (setState i x s) j = inRange s j"
  by (simp add: inRange_def)

lemma inRange_setLatchingState [simp]: "inRange (setLatchingState i x s) j = inRange s j"
  by (simp add: inRange_def)

lemma state_setLatchingState [simp]: "state (setLatchingState i x s) j = state s j"
  by (rule state_cong) simp

lemma latchingState_setState [simp]: "latchingState (setState i x s) j = latchingState s j"
  by (rule latchingState_cong) simp

lemma state_reset:
  assumes r: "inRange s i"
  shows "\<not> state (reset i s) i \<and> \<not> latchingState (reset i s) i"
  using r by (simp add: reset_def state_setState latchingState_setLatchingState)

lemma inRange_s0: "i < 16 \<Longrightarrow> inRange s0 i"
  by (simp add: inRange_def s0_def)

lemma sHeld_facts: "inRange sHeld 3" "state sHeld 3" "latchingState sHeld 3"
  by (simp_all add: sHeld_def inRange_s0 state_setState latchingState_setLatchingState)

subsection \<open>No translation touches the bit arrays\<close>

lemma sendPress_bits:
  "sendPress env db i d s = (send, t, d1, out, s1) \<Longrightarrow>
   buttonPressed s1 = buttonPressed s \<and> lastLatchingState s1 = lastLatchingState s"
  by (cases "messageType d")
    (auto simp: sendPress_def legatoPress_def multiVal_def bankSelect_def customSysEx_def
      customSysExBlock_def Let_def split: prod.splits if_splits)

lemma sendRelease_bits:
  "sendRelease d s = (send, t, d1, out, s1) \<Longrightarrow>
   buttonPressed s1 = buttonPressed s \<and> lastLatchingState s1 = lastLatchingState s"
  by (cases "messageType d")
    (auto simp: sendRelease_def legatoRelease_def Let_def split: prod.splits if_splits)

lemma sendMessage_bits:
  "sendMessage env db i st d s = (d1, out, s1) \<Longrightarrow>
   buttonPressed s1 = buttonPressed s \<and> lastLatchingState s1 = lastLatchingState s"
  by (auto simp: sendMessage_def split: prod.splits if_splits
      dest: sendPress_bits sendRelease_bits)

lemma sendMessage_buttonPressed:
  "buttonPressed (members (sendMessage env db i st d s)) = buttonPressed s"
  using sendMessage_bits [of env db i st d s] by (metis prod.collapse)

lemma sendMessage_lastLatchingState:
  "lastLatchingState (members (sendMessage env db i st d s)) = lastLatchingState s"
  using sendMessage_bits [of env db i st d s] by (metis prod.collapse)

lemma saxSilence_bits:
  "buttonPressed (snd (saxSilence ch s)) = buttonPressed s"
  "lastLatchingState (snd (saxSilence ch s)) = lastLatchingState s"
  by (simp_all add: saxSilence_def)

lemma saxSound_bits:
  "buttonPressed (snd (saxSound ch n s)) = buttonPressed s"
  "lastLatchingState (snd (saxSound ch n s)) = lastLatchingState s"
  by (simp_all add: saxSound_def)

lemma processSax_bits:
  "buttonPressed (snd (processSaxRegisterChromatic env db s)) = buttonPressed s"
  "lastLatchingState (snd (processSaxRegisterChromatic env db s)) = lastLatchingState s"
  by (simp_all add: processSaxRegisterChromatic_def Let_def saxSilence_bits saxSound_bits)

lemma processButton_buttonPressed:
  "buttonPressed (members (processButton env db i reading d s)) =
     (if reading = state s i then buttonPressed s else buttonPressed (setState i reading s))"
  by (simp add: processButton_def Let_def split_beta processSax_bits sendMessage_buttonPressed)

section \<open>The pressed bit\<close>

text \<open>
  C9: after \<open>processButton index reading descriptor\<close> the pressed bit of \<open>index\<close> equals
  \<open>reading\<close>, on every path (an edge consumed by the register-chromatic engine, kind
  \<open>NONE\<close>, a latching release, and also a call that is no edge), and the pressed bit of
  every other index of the collection is the one before the call.
\<close>

theorem processButton_commits_reading:
  assumes "inRange s i" and "inRange s j" and "j \<noteq> i"
  shows "state (members (processButton env db i reading d s)) i = reading
         \<and> state (members (processButton env db i reading d s)) j = state s j"
proof -
  let ?s1 = "members (processButton env db i reading d s)"
  have bp: "buttonPressed ?s1 =
      (if reading = state s i then buttonPressed s else buttonPressed (setState i reading s))"
    by (rule processButton_buttonPressed)
  show ?thesis
  proof (cases "reading = state s i")
    case True
    with bp have "buttonPressed ?s1 = buttonPressed s" by simp
    then have "state ?s1 i = state s i" "state ?s1 j = state s j"
      by (rule state_cong)+
    with True show ?thesis by simp
  next
    case False
    with bp have "buttonPressed ?s1 = buttonPressed (setState i reading s)" by simp
    then have "state ?s1 i = state (setState i reading s) i"
      "state ?s1 j = state (setState i reading s) j"
      by (rule state_cong)+
    with assms show ?thesis
      by (simp add: state_setState)
  qed
qed

text \<open>
  A press of input 2, kind \<open>NONE\<close>, with the register-chromatic mode enabled: the engine
  consumes the edge, bit 2 is set and bit 3 is as before.
\<close>

theorem processButton_commits_reading_witness:
  "inRange s0 2 \<and> inRange s0 3 \<and> (3::nat) \<noteq> 2
   \<and> state (members (processButton env0 dbSax 2 True (descriptor LATCHING NONE 0 0 0) s0)) 2 = True
   \<and> state (members (processButton env0 dbSax 2 True (descriptor LATCHING NONE 0 0 0) s0)) 3
       = state s0 3"
proof -
  have a: "inRange s0 2" and b: "inRange s0 3" and c: "(3::nat) \<noteq> 2"
    by (simp_all add: inRange_s0)
  from processButton_commits_reading [OF a b c] a b c show ?thesis
    by blast
qed

section \<open>Configuration writes\<close>

text \<open>
  C8: a write through \<open>sysConfigSet\<close> returns acknowledge exactly when the store's update
  succeeds and the write error otherwise. When it succeeds and the section is the type or
  the message kind, the pressed bit and the latching bit of the input are both clear
  afterwards. When the update fails, the members are unchanged.
\<close>

theorem sysConfigSet_status_and_reset:
  assumes u: "db_update env (SYS_2_DB_SECTION env sec) i (ucast v) db = (ok, db1)"
    and r: "inRange s i"
  shows "fst (sysConfigSet env sec i v db s) = Some (if ok then ACK else ERROR_WRITE)
     \<and> (ok \<and> (sec = SYS_TYPE \<or> sec = SYS_MESSAGE_TYPE) \<longrightarrow>
          \<not> state (members (sysConfigSet env sec i v db s)) i
          \<and> \<not> latchingState (members (sysConfigSet env sec i v db s)) i)
     \<and> (\<not> ok \<longrightarrow> members (sysConfigSet env sec i v db s) = s)"
proof -
  have eq: "sysConfigSet env sec i v db s =
      (Some (if ok then ACK else ERROR_WRITE), db1,
       if ok \<and> (sec = SYS_TYPE \<or> sec = SYS_MESSAGE_TYPE) then reset i s else s)"
    by (simp add: sysConfigSet_def u)
  show ?thesis
    unfolding eq using state_reset [OF r] by simp
qed

text \<open>
  Input 3 is held and latched. Writing message kind 5 succeeds and clears both bits;
  writing 200, which the store of this configuration refuses, returns the write error and
  leaves the members as they are.
\<close>

theorem sysConfigSet_status_and_reset_witness:
  "fst (db_update env0 (SYS_2_DB_SECTION env0 SYS_MESSAGE_TYPE) 3 (ucast (5 :: 16 word)) db0)
   \<and> \<not> fst (db_update env0 (SYS_2_DB_SECTION env0 SYS_MESSAGE_TYPE) 3 (ucast (200 :: 16 word)) db0)
   \<and> inRange sHeld 3 \<and> state sHeld 3 \<and> latchingState sHeld 3
   \<and> fst (sysConfigSet env0 SYS_MESSAGE_TYPE 3 5 db0 sHeld) = Some ACK
   \<and> \<not> state (members (sysConfigSet env0 SYS_MESSAGE_TYPE 3 5 db0 sHeld)) 3
   \<and> \<not> latchingState (members (sysConfigSet env0 SYS_MESSAGE_TYPE 3 5 db0 sHeld)) 3
   \<and> fst (sysConfigSet env0 SYS_MESSAGE_TYPE 3 200 db0 sHeld) = Some ERROR_WRITE
   \<and> members (sysConfigSet env0 SYS_MESSAGE_TYPE 3 200 db0 sHeld) = sHeld"
proof -
  have ok: "fst (db_update env0 (SYS_2_DB_SECTION env0 SYS_MESSAGE_TYPE) 3 (ucast (5 :: 16 word)) db0)"
    and bad: "\<not> fst (db_update env0 (SYS_2_DB_SECTION env0 SYS_MESSAGE_TYPE) 3 (ucast (200 :: 16 word)) db0)"
    by (simp_all add: env0_def)
  note a = sysConfigSet_status_and_reset [where env = env0 and sec = SYS_MESSAGE_TYPE
      and i = 3 and v = 5 and db = db0 and s = sHeld, OF prod.collapse [symmetric] sHeld_facts(1)]
  note b = sysConfigSet_status_and_reset [where env = env0 and sec = SYS_MESSAGE_TYPE
      and i = 3 and v = 200 and db = db0 and s = sHeld, OF prod.collapse [symmetric] sHeld_facts(1)]
  from a b ok bad sHeld_facts show ?thesis
    by simp
qed

section \<open>Custom SysEx\<close>

lemma length_payloadStep [simp]: "length (payloadStep db i w buf) = length buf"
  by (simp add: payloadStep_def Let_def)

lemma length_fold_payloadStep: "length (fold (payloadStep db i) ws buf) = length buf"
  by (induction ws arbitrary: buf) simp_all

lemma length_payloadBuf [simp]: "length (payloadBuf db i) = 14"
  by (simp add: payloadBuf_def length_fold_payloadStep MAX_PAYLOAD_LEN_def MAX_TOTAL_LEN_def)

text \<open>After the rounds for the words below \<open>m\<close>, the bytes below \<open>2 * m\<close> are in place.\<close>

lemma fold_payloadStep_nth:
  "length buf = 14 \<Longrightarrow> m \<le> 8 \<Longrightarrow> k < 14 \<Longrightarrow>
   fold (payloadStep db i) [0..<m] buf ! k = (if k < 2 * m then payloadByte db i k else buf ! k)"
proof (induction m)
  case 0
  then show ?case by simp
next
  case (Suc m)
  let ?B = "fold (payloadStep db i) [0..<m] buf"
  have len: "length ?B = 14"
    using Suc.prems by (simp add: length_fold_payloadStep)
  have ih: "?B ! k = (if k < 2 * m then payloadByte db i k else buf ! k)"
    using Suc by simp
  have m: "m < 8" using Suc.prems by simp
  have step: "payloadStep db i m ?B ! k =
      (if k = 2 * m then payloadByte db i k
       else if k = 2 * m + 1 then payloadByte db i k else ?B ! k)"
    using m len Suc.prems(3)
    by (auto simp: payloadStep_def Let_def MAX_PAYLOAD_LEN_def MAX_TOTAL_LEN_def payloadByte_def
        sysexWord_def nth_list_update)
  show ?case
    using ih step by (auto simp: less_Suc_eq)
qed

lemma nth_payloadBuf: "k < 14 \<Longrightarrow> payloadBuf db i ! k = payloadByte db i k"
  using fold_payloadStep_nth [of "replicate 14 0" 8 k db i]
  by (simp add: payloadBuf_def CUSTOM_SYSEX_WORDS_def MAX_PAYLOAD_LEN_def MAX_TOTAL_LEN_def)

lemma length_copyPayload [simp]: "length (copyPayload p n buf) = length buf"
proof (induction n)
  case 0
  show ?case by (simp add: copyPayload_def)
next
  case (Suc n)
  then show ?case by (simp add: copyPayload_def)
qed

lemma copyPayload_Suc: "copyPayload p (Suc n) buf = (copyPayload p n buf)[1 + n := p ! n]"
  by (simp add: copyPayload_def)

lemma nth_copyPayload:
  "k < length buf \<Longrightarrow>
   copyPayload p n buf ! k = (if 1 \<le> k \<and> k \<le> n then p ! (k - 1) else buf ! k)"
proof (induction n)
  case 0
  then show ?case by (auto simp: copyPayload_def)
next
  case (Suc n)
  then show ?case
    by (cases "k = Suc n") (auto simp: copyPayload_Suc)
qed

lemma length_frameBuf [simp]: "length (frameBuf p n) = 16"
  by (simp add: frameBuf_def MAX_TOTAL_LEN_def)

lemma nth_frameBuf:
  "n \<le> 14 \<Longrightarrow> k \<le> n + 1 \<Longrightarrow>
   frameBuf p n ! k = (if k = 0 then 0xF0 else if k = n + 1 then 0xF7 else p ! (k - 1))"
  by (auto simp: frameBuf_def MAX_TOTAL_LEN_def nth_list_update nth_copyPayload)

lemma length_substitute [simp]: "length (substitute buf len varPos v) = length buf"
  by (simp add: substitute_def)

lemma nth_substitute:
  "k < length buf \<Longrightarrow>
   substitute buf len varPos v ! k =
     (if k = varPos \<and> varPos \<noteq> 0 \<and> Suc varPos < len then v else buf ! k)"
  by (auto simp: substitute_def nth_list_update)

lemma length_sysExFrame [simp]: "length (sysExFrame db i d n) = 16"
  by (simp add: sysExFrame_def)

lemma sysExFrame_nth:
  assumes range: "1 \<le> n" "n \<le> 14"
  shows "sysExFrame db i d n ! 0 = 0xF0"
    and "sysExFrame db i d n ! (n + 1) = 0xF7"
    and "1 \<le> k \<Longrightarrow> k \<le> n \<Longrightarrow>
         sysExFrame db i d n ! k =
           (if k = unat (ucast (index (event d) AND 0xFF) :: 8 word)
            then ucast (val (event d) AND 0x7F)
            else payloadByte db i (k - 1))"
  using range by (auto simp: sysExFrame_def nth_substitute nth_frameBuf nth_payloadBuf)

lemma last_by_length: "length xs = Suc m \<Longrightarrow> last xs = xs ! m"
  by (cases xs rule: rev_cases) (auto simp: nth_append)

lemma hd_by_length: "length xs = Suc m \<Longrightarrow> hd xs = xs ! 0"
  by (cases xs) simp_all

lemma list5: "length xs = 5 \<Longrightarrow> xs = [xs ! 0, xs ! 1, xs ! 2, xs ! 3, xs ! 4]"
  by (rule nth_equalityI) (auto simp: less_Suc_eq numeral_eq_Suc nth_Cons')

lemma wireFrame_traceEvent:
  "wireFrame (traceEvent i len varPos varValue buf e) = Some (traceBytes i len varPos varValue buf)"
  by (simp add: wireFrame_def traceEvent_def Let_def)

lemma traceBytes_framed:
  "hd (traceBytes i len varPos varValue buf) = 0xF0"
  "last (traceBytes i len varPos varValue buf) = 0xF7"
  by (simp_all add: traceBytes_def)

subsection \<open>The frame at the end of the case block\<close>

lemma customSysExBlock_descriptor:
  assumes "1 \<le> n" "n \<le> 14"
  shows "armDescriptor (customSysExBlock env db i n d s) =
     setEvent (\<lambda>e. e\<lparr>sysEx := LIVE (sysExFrame db i d n), sysExLength := n + 2,
                      message := MIDI_SYS_EX\<rparr>) d"
  using assms by (simp add: armDescriptor_def customSysExBlock_def Let_def sysExFrame_def)

lemma customSysExBlock_frame:
  assumes "1 \<le> n" "n \<le> 14"
  shows "wireFrame (event (armDescriptor (customSysExBlock env db i n d s))) =
     Some (take (n + 2) (sysExFrame db i d n))"
  by (simp add: customSysExBlock_descriptor [OF assms] wireFrame_def setEvent_def)

lemma take_sysExFrame:
  assumes range: "1 \<le> n" "n \<le> 14"
  shows "length (take (n + 2) (sysExFrame db i d n)) = n + 2"
    and "hd (take (n + 2) (sysExFrame db i d n)) = 0xF0"
    and "last (take (n + 2) (sysExFrame db i d n)) = 0xF7"
    and "1 \<le> k \<Longrightarrow> k \<le> n \<Longrightarrow>
         take (n + 2) (sysExFrame db i d n) ! k =
           (if k = unat (ucast (index (event d) AND 0xFF) :: 8 word)
            then ucast (val (event d) AND 0x7F)
            else payloadByte db i (k - 1))"
proof -
  let ?f = "sysExFrame db i d n"
  show wl: "length (take (n + 2) ?f) = n + 2"
    using range by simp
  have "hd (take (n + 2) ?f) = take (n + 2) ?f ! 0"
    by (rule hd_by_length [of _ "Suc n"]) (use range in simp)
  then show "hd (take (n + 2) ?f) = 0xF0"
    using sysExFrame_nth(1) [OF range, of db i d] by simp
  show "last (take (n + 2) ?f) = 0xF7"
    using sysExFrame_nth(2) [OF range, of db i d] wl
    by (simp add: last_by_length [of _ "Suc n"])
  show "take (n + 2) ?f ! k =
           (if k = unat (ucast (index (event d) AND 0xFF) :: 8 word)
            then ucast (val (event d) AND 0x7F)
            else payloadByte db i (k - 1))" if "1 \<le> k" "k \<le> n"
    using sysExFrame_nth(3) [OF range that, of db i d] that by simp
qed

subsection \<open>The event that is published after the block\<close>

lemma customSysEx_published:
  assumes "messageType d = CUSTOM_SYS_EX"
    and "n = unat (ucast (read_button db SYSEX_LENGTH i) :: 8 word)"
    and "1 \<le> n" "n \<le> 14"
  shows "sendMessage env db i True d s =
     (setEvent (\<lambda>e. e\<lparr>sysEx := DANGLING, sysExLength := n + 2,
                      message := MIDI_SYS_EX\<rparr>) d,
      (if DEBUG_SYSEX_TRACE env
       then [(BUTTON, traceEvent i (n + 2) (unat (ucast (index (event d) AND 0xFF) :: 8 word))
                 (ucast (val (event d) AND 0x7F)) (sysExFrame db i d n) (event d))]
       else [])
      @ [(BUTTON, (event d)\<lparr>sysEx := DANGLING, sysExLength := n + 2,
                             message := MIDI_SYS_EX\<rparr>)],
      s)"
  using assms
  by (simp add: sendMessage_def sendPress_def customSysEx_def customSysExBlock_def Let_def
      sysExFrame_def setEvent_def MAX_PAYLOAD_LEN_def MAX_TOTAL_LEN_def)

lemma customSysEx_none:
  assumes "messageType d = CUSTOM_SYS_EX"
    and "n = unat (ucast (read_button db SYSEX_LENGTH i) :: 8 word)"
    and "n = 0 \<or> 14 < n"
  shows "published (sendMessage env db i True d s) = []"
  using assms
  by (auto simp: sendMessage_def sendPress_def customSysEx_def Let_def MAX_PAYLOAD_LEN_def
      MAX_TOTAL_LEN_def)

lemma customSysEx_last:
  assumes kind: "messageType d = CUSTOM_SYS_EX"
    and n: "n = unat (ucast (read_button db SYSEX_LENGTH i) :: 8 word)"
    and range: "1 \<le> n" "n \<le> 14"
    and r: "r = sendMessage env db i True d s"
  shows "published r \<noteq> []"
    and "last (published r) =
      (BUTTON, (event d)\<lparr>sysEx := DANGLING, sysExLength := n + 2,
                          message := MIDI_SYS_EX\<rparr>)"
    and "\<not> DEBUG_SYSEX_TRACE env \<Longrightarrow> length (published r) = 1"
  using customSysEx_published [OF kind n range, of env s] r by simp_all

lemma customSysEx_last_fields:
  assumes kind: "messageType d = CUSTOM_SYS_EX"
    and n: "n = unat (ucast (read_button db SYSEX_LENGTH i) :: 8 word)"
    and range: "1 \<le> n" "n \<le> 14"
    and r: "r = sendMessage env db i True d s"
  shows "fst (last (published r)) = BUTTON"
    and "message (snd (last (published r))) = MIDI_SYS_EX"
    and "sysExLength (snd (last (published r))) = n + 2"
    and "sysEx (snd (last (published r))) = DANGLING"
    and "wireFrame (snd (last (published r))) = None"
  by (simp_all add: customSysEx_last(2) [OF kind n range r] wireFrame_def)

text \<open>
  C10 fails on the code. \<open>n\<close> is the stored payload length as the engine reads it (a
  byte). When \<open>n\<close> is 0 or above 14, a press of a custom SysEx input publishes nothing.
  Otherwise the engine does build a well-framed buffer: at the closing brace of the case
  block the descriptor points to \<open>n + 2\<close> bytes, \<open>0xF0\<close> first and \<open>0xF7\<close> last, and
  each byte at a position from 1 to \<open>n\<close> is the variable value when the position is the
  variable position and the stored payload byte otherwise. But the custom event is
  published after the block has been left. It is the last event published (the only one,
  unless the build has the debug trace), a SysEx event of length \<open>n + 2\<close>, and its
  pointer dangles: no first byte \<open>0xF0\<close> and no last byte \<open>0xF7\<close> can be read from
  it.
\<close>

theorem custom_sysex_frame_dangling:
  assumes kind: "messageType d = CUSTOM_SYS_EX"
    and n: "n = unat (ucast (read_button db SYSEX_LENGTH i) :: 8 word)"
    and r: "r = sendMessage env db i True d s"
    and f: "f = take (n + 2) (sysExFrame db i d n)"
  shows "if n = 0 \<or> 14 < n then published r = []
         else wireFrame (event (armDescriptor (customSysExBlock env db i n d s))) = Some f
           \<and> length f = n + 2 \<and> hd f = 0xF0 \<and> last f = 0xF7
           \<and> (\<forall>k. 1 \<le> k \<and> k \<le> n \<longrightarrow>
                 f ! k = (if k = unat (ucast (index (event d) AND 0xFF) :: 8 word)
                          then ucast (val (event d) AND 0x7F)
                          else payloadByte db i (k - 1)))
           \<and> published r \<noteq> []
           \<and> (\<not> DEBUG_SYSEX_TRACE env \<longrightarrow> length (published r) = 1)
           \<and> fst (last (published r)) = BUTTON
           \<and> message (snd (last (published r))) = MIDI_SYS_EX
           \<and> sysExLength (snd (last (published r))) = n + 2
           \<and> sysEx (snd (last (published r))) = DANGLING
           \<and> wireFrame (snd (last (published r))) = None"
proof (cases "n = 0 \<or> 14 < n")
  case True
  with customSysEx_none [OF kind n] r show ?thesis
    by simp
next
  case False
  then have range: "1 \<le> n" "n \<le> 14" by auto
  have blk: "wireFrame (event (armDescriptor (customSysExBlock env db i n d s))) = Some f"
    unfolding f by (rule customSysExBlock_frame [OF range])
  have fr: "length f = n + 2" "hd f = 0xF0" "last f = 0xF7"
    unfolding f by (rule take_sysExFrame [OF range])+
  have fk: "f ! k = (if k = unat (ucast (index (event d) AND 0xFF) :: 8 word)
                     then ucast (val (event d) AND 0x7F)
                     else payloadByte db i (k - 1))" if "1 \<le> k" "k \<le> n" for k
    unfolding f by (rule take_sysExFrame(4) [OF range that])
  have pub: "published r \<noteq> []"
    and len: "\<not> DEBUG_SYSEX_TRACE env \<Longrightarrow> length (published r) = 1"
    using customSysEx_last(1,3) [OF kind n range r] by simp_all
  note fields = customSysEx_last_fields [OF kind n range r]
  show ?thesis
    using False blk fr fk pub len fields by simp
qed

text \<open>
  Payload length 3 with the stored words \<open>0x0201\<close> and 3 and no substitution: the
  buffer of the block holds \<open>F0 01 04 03 F7\<close>, and the one event that is published has
  length 5 and a dangling pointer. Payload length 0: nothing is published.
\<close>

theorem custom_sysex_frame_dangling_witness:
  "messageType (descriptor MOMENTARY CUSTOM_SYS_EX 0 0 0) = CUSTOM_SYS_EX
   \<and> unat (ucast (read_button dbSysEx SYSEX_LENGTH 0) :: 8 word) = 3
   \<and> unat (ucast (read_button db0 SYSEX_LENGTH 0) :: 8 word) = 0
   \<and> wireFrame (event (armDescriptor
        (customSysExBlock env0 dbSysEx 0 3 (descriptor MOMENTARY CUSTOM_SYS_EX 0 0 0) s0)))
       = Some [0xF0, 0x01, 0x04, 0x03, 0xF7]
   \<and> length (published (sendMessage env0 dbSysEx 0 True (descriptor MOMENTARY CUSTOM_SYS_EX 0 0 0) s0)) = 1
   \<and> message (snd (last (published
        (sendMessage env0 dbSysEx 0 True (descriptor MOMENTARY CUSTOM_SYS_EX 0 0 0) s0)))) = MIDI_SYS_EX
   \<and> sysExLength (snd (last (published
        (sendMessage env0 dbSysEx 0 True (descriptor MOMENTARY CUSTOM_SYS_EX 0 0 0) s0)))) = 5
   \<and> sysEx (snd (last (published
        (sendMessage env0 dbSysEx 0 True (descriptor MOMENTARY CUSTOM_SYS_EX 0 0 0) s0)))) = DANGLING
   \<and> wireFrame (snd (last (published
        (sendMessage env0 dbSysEx 0 True (descriptor MOMENTARY CUSTOM_SYS_EX 0 0 0) s0)))) = None
   \<and> published (sendMessage env0 db0 0 True (descriptor MOMENTARY CUSTOM_SYS_EX 0 0 0) s0) = []"
proof -
  let ?d = "descriptor MOMENTARY CUSTOM_SYS_EX 0 0 0"
  let ?r = "sendMessage env0 dbSysEx 0 True ?d s0"
  let ?f = "take (3 + 2) (sysExFrame dbSysEx 0 ?d 3)"
  have kind: "messageType ?d = CUSTOM_SYS_EX"
    by (simp add: descriptor_def)
  have n3: "(3::nat) = unat (ucast (read_button dbSysEx SYSEX_LENGTH 0) :: 8 word)"
    by (simp add: dbSysEx_def)
  have n0: "(0::nat) = unat (ucast (read_button db0 SYSEX_LENGTH 0) :: 8 word)"
    by (simp add: db0_def)
  have pos: "unat (ucast (index (event ?d) AND 0xFF) :: 8 word) = 0"
    by (simp add: descriptor_def emptyEvent_def)
  have nd: "\<not> DEBUG_SYSEX_TRACE env0"
    by (simp add: env0_def)
  have pb: "payloadByte dbSysEx 0 0 = 0x01" "payloadByte dbSysEx 0 (Suc 0) = 0x04"
      "payloadByte dbSysEx 0 2 = 0x03"
    by (simp_all add: payloadByte_def sysexWord_def dbSysEx_def)
  from custom_sysex_frame_dangling [OF kind n3 refl refl, of env0 s0]
  have blk: "wireFrame (event (armDescriptor (customSysExBlock env0 dbSysEx 0 3 ?d s0))) = Some ?f"
    and fl: "length ?f = 5" and f0: "hd ?f = 0xF0" and f4: "last ?f = 0xF7"
    and fk: "\<forall>k. 1 \<le> k \<and> k \<le> 3 \<longrightarrow> ?f ! k = payloadByte dbSysEx 0 (k - 1)"
    and a: "length (published ?r) = 1"
    and m: "message (snd (last (published ?r))) = MIDI_SYS_EX"
    and l: "sysExLength (snd (last (published ?r))) = 5"
    and p: "sysEx (snd (last (published ?r))) = DANGLING"
    and w: "wireFrame (snd (last (published ?r))) = None"
    using nd by (simp_all add: pos)
  from fk have f1: "?f ! 1 = 0x01" and f2: "?f ! 2 = 0x04" and f3: "?f ! 3 = 0x03"
    using pb by simp_all
  have h: "?f ! 0 = 0xF0"
    using f0 hd_by_length [of ?f 4] by simp
  have t: "?f ! 4 = 0xF7"
    using f4 fl by (simp add: last_by_length [of _ 4])
  have "?f = [0xF0, 0x01, 0x04, 0x03, 0xF7]"
    using list5 [OF fl] h f1 f2 f3 t by simp
  with blk have b: "wireFrame (event (armDescriptor (customSysExBlock env0 dbSysEx 0 3 ?d s0)))
       = Some [0xF0, 0x01, 0x04, 0x03, 0xF7]"
    by simp
  from custom_sysex_frame_dangling [OF kind n0 refl refl, of env0 s0]
  have z: "published (sendMessage env0 db0 0 True ?d s0) = []"
    by simp
  from kind n3 n0 b a m l p w z show ?thesis
    by simp
qed

subsection \<open>A press edge that is translated as "on"\<close>

lemma processButton_press_on:
  assumes "\<not> state s i" and "\<not> saxOverride env db i" and "messageType d \<noteq> NONE"
    and "btype d = MOMENTARY \<or> messageType d = NOTE_LEGATO \<or> \<not> latchingState s i"
  shows "processButton env db i True d s =
     sendMessage env db i True d
       (if btype d = LATCHING \<and> messageType d \<noteq> NOTE_LEGATO
        then setLatchingState i True (setState i True s) else setState i True s)"
  using assms by (cases "btype d") (auto simp: processButton_def Let_def)

lemma s0_idle: "i < 16 \<Longrightarrow> \<not> state s0 i" "i < 16 \<Longrightarrow> \<not> latchingState s0 i"
  by (simp_all add: state_def latchingState_def s0_def BIT_READ_bit arrayIndex_small)

lemma no_override: "read_system db SAX_REGISTER_CHROMATIC_ENABLE = 0 \<Longrightarrow> \<not> saxOverride env db i"
  by (simp add: saxOverride_def)

subsection \<open>The frame of a three-byte payload\<close>

lemma sysex_len3_block:
  assumes w0: "read_button db (SYSEX_DATA 0) i = 0x0201"
    and p: "varPos = unat (ucast (index (event d) AND 0xFF) :: 8 word)"
    and v: "varValue = ucast (val (event d) AND 0x7F)"
  shows "wireFrame (event (armDescriptor (customSysExBlock env db i 3 d s))) =
     Some [0xF0,
           if varPos = 1 then varValue else 0x01,
           if varPos = 2 then varValue else 0x04,
           if varPos = 3 then varValue else ucast (sysexWord db i 1 AND 0x7F),
           0xF7]"
proof -
  let ?f = "sysExFrame db i d 3"
  have b0: "payloadByte db i 0 = 0x01" and b1: "payloadByte db i (Suc 0) = 0x04"
    and b2: "payloadByte db i 2 = ucast (sysexWord db i 1 AND 0x7F)"
    by (simp_all add: payloadByte_def sysexWord_def w0)
  have w: "wireFrame (event (armDescriptor (customSysExBlock env db i 3 d s))) = Some (take 5 ?f)"
    using customSysExBlock_frame [of 3 env db i d s] by simp
  have "length (take 5 ?f) = 5"
    by simp
  from list5 [OF this] have "take 5 ?f = [?f ! 0, ?f ! 1, ?f ! 2, ?f ! 3, ?f ! 4]"
    by simp
  also have "?f ! 0 = 0xF0"
    using sysExFrame_nth(1) [of 3 db i d] by simp
  also have "?f ! 4 = 0xF7"
    using sysExFrame_nth(2) [of 3 db i d] by simp
  also have "?f ! 1 = (if varPos = 1 then varValue else 0x01)"
    using sysExFrame_nth(3) [of 3 1 db i d] by (simp add: p v b0)
  also have "?f ! 2 = (if varPos = 2 then varValue else 0x04)"
    using sysExFrame_nth(3) [of 3 2 db i d] by (simp add: p v b1)
  also have "?f ! 3 = (if varPos = 3 then varValue else ucast (sysexWord db i 1 AND 0x7F))"
    using sysExFrame_nth(3) [of 3 3 db i d] by (simp add: p v b2)
  finally show ?thesis
    using w by simp
qed

text \<open>
  C1 fails on the code. A press edge of a custom SysEx input with stored payload length 3
  and first stored word \<open>0x0201\<close> does build the frame: at the closing brace of the case
  block the descriptor points to five bytes, \<open>0xF0\<close>, then \<open>0x01\<close> (the low seven bits
  of the word), then \<open>0x04\<close> (its next seven bits: \<open>0x0201 >> 7\<close>), then the low seven
  bits of the second stored word, then \<open>0xF7\<close>, where the byte at the variable position
  (1, 2 or 3) is replaced by the variable value. But the event is published after the
  block has been left: the last event published is a SysEx event of length 5 whose pointer
  dangles, so neither the first bytes, nor the last, nor the byte at the variable position
  can be read from it.
\<close>

theorem custom_sysex_press_len3_dangling:
  assumes kind: "messageType d = CUSTOM_SYS_EX"
    and edge: "\<not> state s i" "\<not> saxOverride env db i" "btype d = MOMENTARY \<or> \<not> latchingState s i"
    and len: "read_button db SYSEX_LENGTH i = 3"
    and w0: "read_button db (SYSEX_DATA 0) i = 0x0201"
    and r: "r = processButton env db i True d s"
    and p: "varPos = unat (ucast (index (event d) AND 0xFF) :: 8 word)"
    and v: "varValue = ucast (val (event d) AND 0x7F)"
  shows "wireFrame (event (armDescriptor (customSysExBlock env db i 3 d s))) =
         Some [0xF0,
               if varPos = 1 then varValue else 0x01,
               if varPos = 2 then varValue else 0x04,
               if varPos = 3 then varValue else ucast (sysexWord db i 1 AND 0x7F),
               0xF7]
     \<and> published r \<noteq> [] \<and> fst (last (published r)) = BUTTON
     \<and> message (snd (last (published r))) = MIDI_SYS_EX
     \<and> sysExLength (snd (last (published r))) = 5
     \<and> sysEx (snd (last (published r))) = DANGLING
     \<and> wireFrame (snd (last (published r))) = None"
proof -
  have "messageType d \<noteq> NONE"
    using kind by simp
  from processButton_press_on [OF edge(1,2) this] edge(3) r
  have send: "r = sendMessage env db i True d
       (if btype d = LATCHING \<and> messageType d \<noteq> NOTE_LEGATO
        then setLatchingState i True (setState i True s) else setState i True s)"
    by blast
  have n: "(3::nat) = unat (ucast (read_button db SYSEX_LENGTH i) :: 8 word)"
    by (simp add: len)
  have pub: "published r \<noteq> []"
    using customSysEx_last(1) [OF kind n _ _ send] by simp
  have fields: "fst (last (published r)) = BUTTON"
      "message (snd (last (published r))) = MIDI_SYS_EX"
      "sysExLength (snd (last (published r))) = 5"
      "sysEx (snd (last (published r))) = DANGLING"
      "wireFrame (snd (last (published r))) = None"
    using customSysEx_last_fields [OF kind n _ _ send] by simp_all
  from sysex_len3_block [OF w0 p v] pub fields show ?thesis
    by blast
qed

text \<open>
  Variable position 2, value \<open>0x55\<close>, second stored word 3: the buffer of the block
  holds \<open>F0 01 55 03 F7\<close>, and the event that is published has a dangling pointer.
\<close>

theorem custom_sysex_press_len3_dangling_witness:
  "messageType (descriptor MOMENTARY CUSTOM_SYS_EX 0 2 0x55) = CUSTOM_SYS_EX
   \<and> \<not> state s0 0 \<and> \<not> saxOverride env0 dbSysEx 0
   \<and> read_button dbSysEx SYSEX_LENGTH 0 = 3 \<and> read_button dbSysEx (SYSEX_DATA 0) 0 = 0x0201
   \<and> unat (ucast (index (event (descriptor MOMENTARY CUSTOM_SYS_EX 0 2 0x55)) AND 0xFF) :: 8 word) = 2
   \<and> (ucast (val (event (descriptor MOMENTARY CUSTOM_SYS_EX 0 2 0x55)) AND 0x7F) :: 8 word) = 0x55
   \<and> wireFrame (event (armDescriptor
        (customSysExBlock env0 dbSysEx 0 3 (descriptor MOMENTARY CUSTOM_SYS_EX 0 2 0x55) s0)))
       = Some [0xF0, 0x01, 0x55, 0x03, 0xF7]
   \<and> sysExLength (snd (last (published
        (processButton env0 dbSysEx 0 True (descriptor MOMENTARY CUSTOM_SYS_EX 0 2 0x55) s0)))) = 5
   \<and> sysEx (snd (last (published
        (processButton env0 dbSysEx 0 True (descriptor MOMENTARY CUSTOM_SYS_EX 0 2 0x55) s0))))
       = DANGLING
   \<and> wireFrame (snd (last (published
        (processButton env0 dbSysEx 0 True (descriptor MOMENTARY CUSTOM_SYS_EX 0 2 0x55) s0))))
       = None"
proof -
  let ?d = "descriptor MOMENTARY CUSTOM_SYS_EX 0 2 0x55"
  have kind: "messageType ?d = CUSTOM_SYS_EX" and ty: "btype ?d = MOMENTARY \<or> \<not> latchingState s0 0"
    by (simp_all add: descriptor_def)
  have edge: "\<not> state s0 0" "\<not> saxOverride env0 dbSysEx 0"
    by (simp_all add: s0_idle no_override dbSysEx_def db0_def)
  have len: "read_button dbSysEx SYSEX_LENGTH 0 = 3"
    and w0: "read_button dbSysEx (SYSEX_DATA 0) 0 = 0x0201"
    and w1: "sysexWord dbSysEx 0 (Suc 0) = 0x0003"
    by (simp_all add: dbSysEx_def sysexWord_def)
  have pos: "unat (ucast (index (event ?d) AND 0xFF) :: 8 word) = 2"
    and v: "(ucast (val (event ?d) AND 0x7F) :: 8 word) = 0x55"
    by (simp_all add: descriptor_def emptyEvent_def)
  from custom_sysex_press_len3_dangling [OF kind edge ty len w0 refl pos [symmetric] v [symmetric]]
  have "wireFrame (event (armDescriptor (customSysExBlock env0 dbSysEx 0 3 ?d s0)))
       = Some [0xF0, 0x01, 0x55, 0x03, 0xF7]"
    and "sysExLength (snd (last (published (processButton env0 dbSysEx 0 True ?d s0)))) = 5"
    and "sysEx (snd (last (published (processButton env0 dbSysEx 0 True ?d s0)))) = DANGLING"
    and "wireFrame (snd (last (published (processButton env0 dbSysEx 0 True ?d s0)))) = None"
    by (simp_all add: w1)
  with kind edge len w0 pos v show ?thesis
    by simp
qed

section \<open>Legato\<close>

lemma list_update_same: "xs ! i = v \<Longrightarrow> xs = xs[i := v]"
  by (metis list_update_id)

lemma sendMessage_legato_release:
  assumes kind: "messageType d = NOTE_LEGATO"
    and ch: "ch = unat (channel (event d) AND 0x0F)"
    and ready: "legatoReady s ch"
  shows "published (sendMessage env db i False d s) =
           (if legatoButtonCount s ! ch \<le> 1 then [noteOff d (ucast (legatoActiveNote s ! ch))] else [])"
    and "legatoButtonCount (members (sendMessage env db i False d s)) =
           (legatoButtonCount s)[ch := (if legatoButtonCount s ! ch = 0 then 0
                                         else legatoButtonCount s ! ch - 1)]"
    and "legatoActiveNote (members (sendMessage env db i False d s)) =
           (if legatoButtonCount s ! ch \<le> 1 then (legatoActiveNote s)[ch := 0]
            else legatoActiveNote s)"
proof -
  let ?c = "legatoButtonCount s ! ch"
  have c1: "?c \<le> 1 \<longleftrightarrow> ?c = 0 \<or> ?c = 1"
    by (auto simp: le_less)
  have c2: "?c \<noteq> 0 \<Longrightarrow> ?c - 1 = 0 \<longleftrightarrow> ?c = 1"
    by auto
  have pos: "0 < ?c \<longleftrightarrow> ?c \<noteq> 0"
    by (simp add: word_neq_0_conv)
  show "published (sendMessage env db i False d s) =
           (if ?c \<le> 1 then [noteOff d (ucast (legatoActiveNote s ! ch))] else [])"
    using kind ready c2
    by (auto simp: sendMessage_def sendRelease_def legatoRelease_def Let_def ch [symmetric] c1 pos
        legatoReady_def noteOff_def setEvent_def)
  show "legatoButtonCount (members (sendMessage env db i False d s)) =
           (legatoButtonCount s)[ch := (if ?c = 0 then 0 else ?c - 1)]"
    using kind ready
    by (auto simp: sendMessage_def sendRelease_def legatoRelease_def Let_def ch [symmetric] pos
        legatoReady_def intro: list_update_same)
  show "legatoActiveNote (members (sendMessage env db i False d s)) =
           (if ?c \<le> 1 then (legatoActiveNote s)[ch := 0] else legatoActiveNote s)"
    using kind ready c2
    by (auto simp: sendMessage_def sendRelease_def legatoRelease_def Let_def ch [symmetric] c1 pos
        legatoReady_def)
qed

lemma sendMessage_legato_press:
  assumes kind: "messageType d = NOTE_LEGATO"
    and ch: "ch = unat (channel (event d) AND 0x0F)"
    and ready: "legatoReady s ch"
  shows "published (sendMessage env db i True d s) =
           (if 1 < legatoButtonCount s ! ch + 1
               \<and> legatoActiveNote s ! ch \<noteq> ucast (index (event d) AND 0x7F)
            then [noteOff d (ucast (legatoActiveNote s ! ch))] else []) @ [noteOn d]"
    and "legatoButtonCount (members (sendMessage env db i True d s)) =
           (legatoButtonCount s)[ch := legatoButtonCount s ! ch + 1]"
    and "legatoActiveNote (members (sendMessage env db i True d s)) =
           (legatoActiveNote s)[ch := ucast (index (event d) AND 0x7F)]"
  using kind ready
  by (auto simp: sendMessage_def sendPress_def legatoPress_def Let_def ch [symmetric]
      legatoReady_def noteOff_def noteOn_def setEvent_def)

lemma note_and_7F: "(n :: 16 word) < 128 \<Longrightarrow> n AND 0x7F = n"
  using less_mask_eq [of n 7] by (simp add: mask_numerals)

lemma note_ucast_ucast: "(n :: 16 word) < 128 \<Longrightarrow> (ucast (ucast n :: 8 word) :: 16 word) = n"
  using ucast_ucast_and_7F [of n] by (simp add: note_and_7F)

lemma note_ucast_inj:
  "(a :: 16 word) < 128 \<Longrightarrow> b < 128 \<Longrightarrow> (ucast a :: 8 word) = ucast b \<longleftrightarrow> a = b"
  by (metis note_ucast_ucast)

text \<open>
  C2, as the code has it: on a release of a legato input the count of its channel goes
  down by one and stops at 0 (it never wraps below 0), and \<open>sendMessage\<close> publishes a
  Note Off (for the sounding note of the channel) exactly when the count after the
  release is 0: when it goes from 1 to 0 and also when it was 0 already. While the count
  stays positive nothing is published.
\<close>

theorem legato_release_count_and_note_off:
  assumes kind: "messageType d = NOTE_LEGATO"
    and ch: "ch = unat (channel (event d) AND 0x0F)"
    and ready: "legatoReady s ch"
    and c: "c = legatoButtonCount s ! ch"
    and r: "r = sendMessage env db i False d s"
  shows "unat (legatoButtonCount (members r) ! ch) = unat c - 1
     \<and> published r =
         (if unat c \<le> 1 then [noteOff d (ucast (legatoActiveNote s ! ch))] else [])
     \<and> (published r \<noteq> [] \<longleftrightarrow> legatoButtonCount (members r) ! ch = 0)"
proof -
  have le: "c \<le> 1 \<longleftrightarrow> unat c \<le> 1"
    by (simp add: word_le_nat_alt)
  have len: "ch < length (legatoButtonCount s)"
    using ready by (simp add: legatoReady_def)
  have cnt: "legatoButtonCount (members r) ! ch = (if c = 0 then 0 else c - 1)"
    using sendMessage_legato_release(2) [OF kind ch ready, of env db i] len
    by (simp add: r c)
  have pub: "published r =
         (if unat c \<le> 1 then [noteOff d (ucast (legatoActiveNote s ! ch))] else [])"
    using sendMessage_legato_release(1) [OF kind ch ready, of env db i] le
    by (simp add: r c)
  have u: "unat (if c = 0 then 0 else c - 1) = unat c - 1"
    by (auto simp: unat_minus_one)
  have z: "(if c = 0 then 0 else c - 1) = 0 \<longleftrightarrow> unat c \<le> 1"
    using le by (auto simp: le_less)
  show ?thesis
    using cnt pub u z by simp
qed

lemma sLegato_ready: "legatoReady (sLegato c) 0"
  by (simp add: legatoReady_def sLegato_def s0_def)

lemma legato_d0:
  "messageType (descriptor MOMENTARY NOTE_LEGATO 0 60 127) = NOTE_LEGATO"
  "(0::nat) = unat (channel (event (descriptor MOMENTARY NOTE_LEGATO 0 60 127)) AND 0x0F)"
  by (simp_all add: descriptor_def emptyEvent_def)

text \<open>
  Two inputs held on channel 0: a release publishes nothing and leaves the count at 1.
  One input held: the release publishes the Note Off of the sounding note 64 and the count
  is 0.
\<close>

theorem legato_release_count_and_note_off_witness:
  "messageType (descriptor MOMENTARY NOTE_LEGATO 0 60 127) = NOTE_LEGATO
   \<and> legatoReady (sLegato 2) 0 \<and> legatoButtonCount (sLegato 2) ! 0 = 2
   \<and> published (sendMessage env0 db0 0 False (descriptor MOMENTARY NOTE_LEGATO 0 60 127) (sLegato 2)) = []
   \<and> unat (legatoButtonCount (members
        (sendMessage env0 db0 0 False (descriptor MOMENTARY NOTE_LEGATO 0 60 127) (sLegato 2))) ! 0) = 1
   \<and> legatoButtonCount (sLegato 1) ! 0 = 1
   \<and> wire (published
        (sendMessage env0 db0 0 False (descriptor MOMENTARY NOTE_LEGATO 0 60 127) (sLegato 1)))
       = [(BUTTON, MIDI_NOTE_OFF, 0, 64, 0)]
   \<and> unat (legatoButtonCount (members
        (sendMessage env0 db0 0 False (descriptor MOMENTARY NOTE_LEGATO 0 60 127) (sLegato 1))) ! 0) = 0"
proof -
  let ?d = "descriptor MOMENTARY NOTE_LEGATO 0 60 127"
  have c2: "(2 :: 8 word) = legatoButtonCount (sLegato 2) ! 0"
    and c1: "(1 :: 8 word) = legatoButtonCount (sLegato 1) ! 0"
    and a: "legatoActiveNote (sLegato 1) ! 0 = 64"
    by (simp_all add: sLegato_def s0_def)
  note two = legato_release_count_and_note_off [OF legato_d0 sLegato_ready c2 refl, of env0 db0 0]
  note one = legato_release_count_and_note_off [OF legato_d0 sLegato_ready c1 refl, of env0 db0 0]
  from two have t: "published (sendMessage env0 db0 0 False ?d (sLegato 2)) = []"
    "unat (legatoButtonCount (members (sendMessage env0 db0 0 False ?d (sLegato 2))) ! 0) = 1"
    by simp_all
  from one have o: "wire (published (sendMessage env0 db0 0 False ?d (sLegato 1)))
       = [(BUTTON, MIDI_NOTE_OFF, 0, 64, 0)]"
    "unat (legatoButtonCount (members (sendMessage env0 db0 0 False ?d (sLegato 1))) ! 0) = 0"
    by (simp_all add: a wire_def noteOff_def descriptor_def emptyEvent_def)
  from t o legato_d0(1) sLegato_ready [of 2] c1 [symmetric] c2 [symmetric] show ?thesis
    by simp
qed

text \<open>
  C2 as stated fails: with the count of the channel already 0 (as at a forced refresh of
  an input that is not held), a release publishes a Note Off and the count stays 0.
\<close>

theorem legato_release_at_zero_counterexample:
  "messageType (descriptor MOMENTARY NOTE_LEGATO 0 60 127) = NOTE_LEGATO
   \<and> legatoButtonCount s0 ! 0 = 0
   \<and> wire (published (sendMessage env0 db0 0 False (descriptor MOMENTARY NOTE_LEGATO 0 60 127) s0))
       = [(BUTTON, MIDI_NOTE_OFF, 0, 0, 0)]
   \<and> legatoButtonCount (members
        (sendMessage env0 db0 0 False (descriptor MOMENTARY NOTE_LEGATO 0 60 127) s0)) ! 0 = 0"
proof -
  let ?d = "descriptor MOMENTARY NOTE_LEGATO 0 60 127"
  have ready: "legatoReady s0 0"
    by (simp add: legatoReady_def s0_def)
  have z: "legatoButtonCount s0 ! 0 = 0" "legatoActiveNote s0 ! 0 = 0"
    by (simp_all add: s0_def)
  from sendMessage_legato_release(1,2) [OF legato_d0 ready, of env0 db0 0] z legato_d0(1)
  show ?thesis
    by (simp add: wire_def noteOff_def descriptor_def emptyEvent_def s0_def)
qed

subsection \<open>Legato inputs through the edge processing\<close>

lemma processButton_release_off:
  assumes "state s i" and "\<not> saxOverride env db i"
    and "btype d = MOMENTARY \<or> messageType d = NOTE_LEGATO" and "messageType d \<noteq> NONE"
  shows "processButton env db i False d s = sendMessage env db i False d (setState i False s)"
  using assms by (cases "btype d") (auto simp: processButton_def Let_def)

lemma legatoReady_setState [simp]: "legatoReady (setState i x s) ch = legatoReady s ch"
  by (simp add: legatoReady_def)

text \<open>The part of the members that the legato inputs of one channel see.\<close>

lemma processButton_legato_press:
  assumes li: "legatoInput ch n d" and idle: "\<not> state s i" and ov: "\<not> saxOverride env db i"
    and ready: "legatoReady s ch" and r: "r = processButton env db i True d s"
  shows "published r =
           (if 1 < legatoButtonCount s ! ch + 1 \<and> legatoActiveNote s ! ch \<noteq> ucast n
            then [noteOff d (ucast (legatoActiveNote s ! ch))] else []) @ [noteOn d]"
    and "legatoButtonCount (members r) ! ch = legatoButtonCount s ! ch + 1"
    and "legatoActiveNote (members r) ! ch = ucast n"
    and "legatoReady (members r) ch"
    and "buttonPressed (members r) = buttonPressed (setState i True s)"
    and "lastLatchingState (members r) = lastLatchingState s"
proof -
  from li have kind: "messageType d = NOTE_LEGATO"
    and ch: "ch = unat (channel (event d) AND 0x0F)"
    and n: "index (event d) AND 0x7F = n"
    by (auto simp: legatoInput_def note_and_7F)
  have eq: "r = sendMessage env db i True d (setState i True s)"
    using processButton_press_on [OF idle ov, of d] kind r by simp
  have ready': "legatoReady (setState i True s) ch"
    using ready by simp
  note p = sendMessage_legato_press [OF kind ch ready', of env db i, folded eq]
  from ready have len: "ch < length (legatoButtonCount s)" "ch < length (legatoActiveNote s)"
    by (simp_all add: legatoReady_def)
  show "published r =
           (if 1 < legatoButtonCount s ! ch + 1 \<and> legatoActiveNote s ! ch \<noteq> ucast n
            then [noteOff d (ucast (legatoActiveNote s ! ch))] else []) @ [noteOn d]"
    using p(1) by (simp add: n)
  show "legatoButtonCount (members r) ! ch = legatoButtonCount s ! ch + 1"
    using p(2) len by simp
  show "legatoActiveNote (members r) ! ch = ucast n"
    using p(3) len by (simp add: n)
  show "legatoReady (members r) ch"
    using p(2,3) len by (simp add: legatoReady_def)
  show "buttonPressed (members r) = buttonPressed (setState i True s)"
    unfolding eq by (rule sendMessage_buttonPressed)
  show "lastLatchingState (members r) = lastLatchingState s"
    unfolding eq by (simp add: sendMessage_lastLatchingState)
qed

lemma processButton_legato_release:
  assumes li: "legatoInput ch n d" and held: "state s i" and ov: "\<not> saxOverride env db i"
    and ready: "legatoReady s ch" and r: "r = processButton env db i False d s"
  shows "published r =
           (if legatoButtonCount s ! ch \<le> 1
            then [noteOff d (ucast (legatoActiveNote s ! ch))] else [])"
    and "legatoButtonCount (members r) ! ch =
           (if legatoButtonCount s ! ch = 0 then 0 else legatoButtonCount s ! ch - 1)"
    and "1 < legatoButtonCount s ! ch \<Longrightarrow>
           legatoActiveNote (members r) ! ch = legatoActiveNote s ! ch"
    and "legatoReady (members r) ch"
    and "buttonPressed (members r) = buttonPressed (setState i False s)"
    and "lastLatchingState (members r) = lastLatchingState s"
proof -
  from li have kind: "messageType d = NOTE_LEGATO"
    and ch: "ch = unat (channel (event d) AND 0x0F)"
    by (auto simp: legatoInput_def)
  have eq: "r = sendMessage env db i False d (setState i False s)"
    using processButton_release_off [OF held ov, of d] kind r by simp
  have ready': "legatoReady (setState i False s) ch"
    using ready by simp
  note p = sendMessage_legato_release [OF kind ch ready', of env db i, folded eq]
  from ready have len: "ch < length (legatoButtonCount s)" "ch < length (legatoActiveNote s)"
    by (simp_all add: legatoReady_def)
  show "published r =
           (if legatoButtonCount s ! ch \<le> 1
            then [noteOff d (ucast (legatoActiveNote s ! ch))] else [])"
    using p(1) by simp
  show "legatoButtonCount (members r) ! ch =
           (if legatoButtonCount s ! ch = 0 then 0 else legatoButtonCount s ! ch - 1)"
    using p(2) len by simp
  show "legatoActiveNote (members r) ! ch = legatoActiveNote s ! ch"
    if "1 < legatoButtonCount s ! ch"
    using p(3) that by (simp add: not_le [symmetric])
  show "legatoReady (members r) ch"
    using p(2,3) len by (simp add: legatoReady_def)
  show "buttonPressed (members r) = buttonPressed (setState i False s)"
    unfolding eq by (rule sendMessage_buttonPressed)
  show "lastLatchingState (members r) = lastLatchingState s"
    unfolding eq by (simp add: sendMessage_lastLatchingState)
qed

text \<open>How the pressed bits move along an edge that is taken.\<close>

lemma state_after:
  assumes "buttonPressed s' = buttonPressed (setState i x s)" and "inRange s i" and "inRange s j"
  shows "state s' j = (if j = i then x else state s j)"
  using state_cong [OF assms(1), of j] state_setState [OF assms(2,3), of x] by simp

lemma inRange_after:
  assumes "buttonPressed s' = buttonPressed (setState i x s)"
    and "lastLatchingState s' = lastLatchingState s"
  shows "inRange s' j = inRange s j"
  using assms by (simp add: inRange_def setState_def)

lemma byte_cmp:
  "\<not> (3 :: 8 word) \<le> 1" "\<not> (2 :: 8 word) \<le> 1" "(1 :: 8 word) < 3" "(1 :: 8 word) < 2"
  by (simp_all add: word_le_nat_alt word_less_nat_alt)

text \<open>
  C4: three legato inputs of one channel, mapped to distinct notes \<open>a\<close>, \<open>b\<close>, \<open>c\<close>,
  none held and the channel idle. Pressing them in this order publishes \<open>On(a)\<close>, then
  \<open>Off(a)\<close> and \<open>On(b)\<close>, then \<open>Off(b)\<close> and \<open>On(c)\<close>. Releasing the three
  afterwards, in any order, publishes nothing at the first two releases and exactly one
  Note Off at the last one; it is the Note Off of the sounding note \<open>c\<close>.
\<close>

theorem legato_three_inputs:
  assumes A: "legatoInput ch a dA" and B: "legatoInput ch b dB" and C: "legatoInput ch c dC"
    and nts: "distinct [a, b, c]"
    and idx: "distinct [iA, iB, iC]"
    and rng: "inRange s iA" "inRange s iB" "inRange s iC"
    and idle: "\<not> state s iA" "\<not> state s iB" "\<not> state s iC"
    and ov: "\<not> saxOverride env db iA" "\<not> saxOverride env db iB" "\<not> saxOverride env db iC"
    and ready: "legatoReady s ch" and zero: "legatoButtonCount s ! ch = 0"
    and m1: "(j1, e1) \<in> {(iA, dA), (iB, dB), (iC, dC)}"
    and m2: "(j2, e2) \<in> {(iA, dA), (iB, dB), (iC, dC)}"
    and m3: "(j3, e3) \<in> {(iA, dA), (iB, dB), (iC, dC)}"
    and order: "distinct [j1, j2, j3]"
  shows "fst (processAll env db
            [(iA, True, dA), (iB, True, dB), (iC, True, dC),
             (j1, False, e1), (j2, False, e2), (j3, False, e3)] s) =
         [[noteOn dA], [noteOff dB a, noteOn dB], [noteOff dC b, noteOn dC],
          [], [], [noteOff e3 c]]"
proof -
  define r1 where "r1 = processButton env db iA True dA s"
  define r2 where "r2 = processButton env db iB True dB (members r1)"
  define r3 where "r3 = processButton env db iC True dC (members r2)"
  define r4 where "r4 = processButton env db j1 False e1 (members r3)"
  define r5 where "r5 = processButton env db j2 False e2 (members r4)"
  define r6 where "r6 = processButton env db j3 False e3 (members r5)"
  have run: "fst (processAll env db
            [(iA, True, dA), (iB, True, dB), (iC, True, dC),
             (j1, False, e1), (j2, False, e2), (j3, False, e3)] s) =
         [published r1, published r2, published r3, published r4, published r5, published r6]"
    by (simp add: Let_def split_beta r1_def r2_def r3_def r4_def r5_def r6_def)
  from A B C nts have small: "a < 128" "b < 128" "c < 128"
    and ne: "(ucast a :: 8 word) \<noteq> ucast b" "(ucast b :: 8 word) \<noteq> ucast c"
    by (auto simp: legatoInput_def note_ucast_inj)
  have mem: "(\<exists>n. legatoInput ch n e) \<and> inRange s j \<and> \<not> saxOverride env db j \<and> j \<in> {iA, iB, iC}"
    if "(j, e) \<in> {(iA, dA), (iB, dB), (iC, dC)}" for j e
    using that A B C rng ov by auto

  \<comment> \<open>the three presses\<close>
  note p1 = processButton_legato_press [OF A idle(1) ov(1) ready r1_def]
  have pub1: "published r1 = [noteOn dA]"
    using p1(1) by (simp add: zero)
  have cnt1: "legatoButtonCount (members r1) ! ch = 1"
    using p1(2) by (simp add: zero)
  have st1: "state (members r1) j = (if j = iA then True else state s j)" if "inRange s j" for j
    using state_after [OF p1(5) rng(1) that] .
  have in1: "inRange (members r1) j = inRange s j" for j
    using inRange_after [OF p1(5,6)] .

  have idle2: "\<not> state (members r1) iB"
    using st1 [OF rng(2)] idx idle by simp
  note p2 = processButton_legato_press [OF B idle2 ov(2) p1(4) r2_def]
  have pub2: "published r2 = [noteOff dB a, noteOn dB]"
    using p2(1) ne by (simp add: cnt1 p1(3) note_ucast_ucast small)
  have cnt2: "legatoButtonCount (members r2) ! ch = 2"
    using p2(2) by (simp add: cnt1)
  have st2: "state (members r2) j = (if j = iB then True else state (members r1) j)"
    if "inRange s j" for j
    using state_after [OF p2(5), of j] rng(2) that by (simp add: in1)
  have in2: "inRange (members r2) j = inRange s j" for j
    using inRange_after [OF p2(5,6), of j] by (simp add: in1)

  have idle3: "\<not> state (members r2) iC"
    using st2 [OF rng(3)] st1 [OF rng(3)] idx idle by simp
  note p3 = processButton_legato_press [OF C idle3 ov(3) p2(4) r3_def]
  have pub3: "published r3 = [noteOff dC b, noteOn dC]"
    using p3(1) ne by (simp add: cnt2 p2(3) note_ucast_ucast small)
  have cnt3: "legatoButtonCount (members r3) ! ch = 3"
    using p3(2) by (simp add: cnt2)
  have st3: "state (members r3) j = (if j = iC then True else state (members r2) j)"
    if "inRange s j" for j
    using state_after [OF p3(5), of j] rng(3) that by (simp add: in2)
  have in3: "inRange (members r3) j = inRange s j" for j
    using inRange_after [OF p3(5,6), of j] by (simp add: in2)
  have held3: "state (members r3) j" if "j \<in> {iA, iB, iC}" for j
    using that rng st3 [of j] st2 [of j] st1 [of j] by auto

  \<comment> \<open>the three releases\<close>
  from mem [OF m1] obtain n1 where L1: "legatoInput ch n1 e1"
    and i1: "inRange s j1" "\<not> saxOverride env db j1" "j1 \<in> {iA, iB, iC}" by blast
  from mem [OF m2] obtain n2 where L2: "legatoInput ch n2 e2"
    and i2: "inRange s j2" "\<not> saxOverride env db j2" "j2 \<in> {iA, iB, iC}" by blast
  from mem [OF m3] obtain n3 where L3: "legatoInput ch n3 e3"
    and i3: "inRange s j3" "\<not> saxOverride env db j3" "j3 \<in> {iA, iB, iC}" by blast

  note q1 = processButton_legato_release [OF L1 held3 [OF i1(3)] i1(2) p3(4) r4_def]
  have pub4: "published r4 = []"
    using q1(1) by (simp add: cnt3 byte_cmp)
  have cnt4: "legatoButtonCount (members r4) ! ch = 2"
    using q1(2) by (simp add: cnt3 byte_cmp)
  have act4: "legatoActiveNote (members r4) ! ch = ucast c"
    using q1(3) by (simp add: cnt3 p3(3) byte_cmp)
  have st4: "state (members r4) j = (if j = j1 then False else state (members r3) j)"
    if "inRange s j" for j
    using state_after [OF q1(5), of j] i1(1) that by (simp add: in3)
  have in4: "inRange (members r4) j = inRange s j" for j
    using inRange_after [OF q1(5,6), of j] by (simp add: in3)

  have held4: "state (members r4) j2"
    using st4 [OF i2(1)] held3 [OF i2(3)] order by simp
  note q2 = processButton_legato_release [OF L2 held4 i2(2) q1(4) r5_def]
  have pub5: "published r5 = []"
    using q2(1) by (simp add: cnt4 byte_cmp)
  have cnt5: "legatoButtonCount (members r5) ! ch = 1"
    using q2(2) by (simp add: cnt4 byte_cmp)
  have act5: "legatoActiveNote (members r5) ! ch = ucast c"
    using q2(3) by (simp add: cnt4 act4 byte_cmp)
  have st5: "state (members r5) j = (if j = j2 then False else state (members r4) j)"
    if "inRange s j" for j
    using state_after [OF q2(5), of j] i2(1) that by (simp add: in4)

  have held5: "state (members r5) j3"
    using st5 [OF i3(1)] st4 [OF i3(1)] held3 [OF i3(3)] order by simp
  note q3 = processButton_legato_release [OF L3 held5 i3(2) q2(4) r6_def]
  have pub6: "published r6 = [noteOff e3 c]"
    using q3(1) by (simp add: cnt5 act5 note_ucast_ucast small)

  show ?thesis
    unfolding run by (simp add: pub1 pub2 pub3 pub4 pub5 pub6)
qed

text \<open>
  Inputs 1, 2, 3 with notes 60, 62, 64 on channel 0, released in the order 2, 3, 1.
\<close>

lemma dLegato_input: "note < 128 \<Longrightarrow> legatoInput 0 note (dLegato note)"
  by (simp add: legatoInput_def dLegato_def descriptor_def emptyEvent_def)

lemma s0_legato: "legatoReady s0 0" "legatoButtonCount s0 ! 0 = 0"
  by (simp_all add: legatoReady_def s0_def)

theorem legato_three_inputs_witness:
  "legatoInput 0 60 (dLegato 60) \<and> legatoInput 0 62 (dLegato 62) \<and> legatoInput 0 64 (dLegato 64)
   \<and> inRange s0 1 \<and> inRange s0 2 \<and> inRange s0 3
   \<and> map wire (fst (processAll env0 db0
         [(1, True, dLegato 60), (2, True, dLegato 62), (3, True, dLegato 64),
          (2, False, dLegato 62), (3, False, dLegato 64), (1, False, dLegato 60)] s0))
     = [[(BUTTON, MIDI_NOTE_ON, 0, 60, 127)],
        [(BUTTON, MIDI_NOTE_OFF, 0, 60, 0), (BUTTON, MIDI_NOTE_ON, 0, 62, 127)],
        [(BUTTON, MIDI_NOTE_OFF, 0, 62, 0), (BUTTON, MIDI_NOTE_ON, 0, 64, 127)],
        [], [],
        [(BUTTON, MIDI_NOTE_OFF, 0, 64, 0)]]"
proof -
  have li: "legatoInput 0 60 (dLegato 60)" "legatoInput 0 62 (dLegato 62)"
    "legatoInput 0 64 (dLegato 64)"
    by (simp_all add: dLegato_input)
  have rng: "inRange s0 1" "inRange s0 2" "inRange s0 3"
    by (simp_all add: inRange_s0)
  have idle: "\<not> state s0 1" "\<not> state s0 2" "\<not> state s0 3"
    by (simp_all add: s0_idle)
  have ov: "\<not> saxOverride env0 db0 1" "\<not> saxOverride env0 db0 2" "\<not> saxOverride env0 db0 3"
    by (simp_all add: no_override db0_def)
  have "fst (processAll env0 db0
         [(1, True, dLegato 60), (2, True, dLegato 62), (3, True, dLegato 64),
          (2, False, dLegato 62), (3, False, dLegato 64), (1, False, dLegato 60)] s0)
     = [[noteOn (dLegato 60)], [noteOff (dLegato 62) 60, noteOn (dLegato 62)],
        [noteOff (dLegato 64) 62, noteOn (dLegato 64)], [], [], [noteOff (dLegato 60) 64]]"
    by (rule legato_three_inputs [OF li _ _ rng idle ov s0_legato]) simp_all
  then show ?thesis
    using li rng
    by (simp add: wire_def noteOn_def noteOff_def dLegato_def descriptor_def emptyEvent_def)
qed

section \<open>Latching inputs\<close>

lemma latching_press:
  assumes "latchingKind d" and "\<not> state s i" and "\<not> saxOverride env db i"
  shows "processButton env db i True d s =
     sendMessage env db i (\<not> latchingState s i) d
       (setLatchingState i (\<not> latchingState s i) (setState i True s))"
  using assms by (auto simp: processButton_def Let_def latchingKind_def)

lemma latching_release:
  assumes "latchingKind d" and "state s i" and "\<not> saxOverride env db i"
  shows "processButton env db i False d s = (d, [], setState i False s)"
  using assms by (auto simp: processButton_def Let_def latchingKind_def)

lemma latching_cycle:
  assumes k: "latchingKind d" and idle: "\<not> state s i" and ov: "\<not> saxOverride env db i"
    and rng: "inRange s i"
    and r: "r = sendMessage env db i (\<not> latchingState s i) d
                  (setLatchingState i (\<not> latchingState s i) (setState i True s))"
  shows "processButton env db i True d s = r"
    and "processButton env db i False d (members r) = (d, [], setState i False (members r))"
    and "latchingState (members r) i = (\<not> latchingState s i)"
    and "latchingState (setState i False (members r)) i = (\<not> latchingState s i)"
    and "\<not> state (setState i False (members r)) i"
    and "inRange (setState i False (members r)) i"
proof -
  let ?s1 = "setLatchingState i (\<not> latchingState s i) (setState i True s)"
  show press: "processButton env db i True d s = r"
    using latching_press [OF k idle ov] r by simp
  have bp: "buttonPressed (members r) = buttonPressed ?s1"
    and ll: "lastLatchingState (members r) = lastLatchingState ?s1"
    unfolding r by (rule sendMessage_buttonPressed, rule sendMessage_lastLatchingState)
  have rng1: "inRange ?s1 i"
    using rng by simp
  have rng2: "inRange (members r) i"
    using inRange_cong [of "members r" ?s1 i] bp ll rng1 by simp
  have "state (members r) i = state ?s1 i"
    using bp by (rule state_cong)
  then have held: "state (members r) i"
    using rng by (simp add: state_setState)
  show "processButton env db i False d (members r) = (d, [], setState i False (members r))"
    using latching_release [OF k held ov] .
  have "latchingState (members r) i = latchingState ?s1 i"
    using ll by (rule latchingState_cong)
  then show l: "latchingState (members r) i = (\<not> latchingState s i)"
    using rng by (simp add: latchingState_setLatchingState)
  then show "latchingState (setState i False (members r)) i = (\<not> latchingState s i)"
    by simp
  show "\<not> state (setState i False (members r)) i"
    using rng2 by (simp add: state_setState)
  show "inRange (setState i False (members r)) i"
    using rng2 by simp
qed

lemma pressRelease_Suc: "pressRelease i d (Suc n) = (i, True, d) # (i, False, d) # pressRelease i d n"
  by (simp add: pressRelease_def)

lemma latching_toggle_general:
  assumes k: "latchingKind d" and ov: "\<not> saxOverride env db i"
    and idle: "\<not> state s i" and rng: "inRange s i"
  shows "processAll env db (pressRelease i d n) s = toggleSpec env db i d n (latchingState s i) s
     \<and> latchingState (snd (processAll env db (pressRelease i d n) s)) i
         = (if even n then latchingState s i else \<not> latchingState s i)"
  using idle rng
proof (induction n arbitrary: s)
  case 0
  show ?case by (simp add: pressRelease_def)
next
  case (Suc n)
  define r where "r = sendMessage env db i (\<not> latchingState s i) d
                  (setLatchingState i (\<not> latchingState s i) (setState i True s))"
  note c = latching_cycle [OF k Suc.prems(1) ov Suc.prems(2) r_def]
  define s2 where "s2 = setState i False (members r)"
  from Suc.IH [OF c(5) c(6)]
  have ih: "processAll env db (pressRelease i d n) s2 = toggleSpec env db i d n (latchingState s2 i) s2
     \<and> latchingState (snd (processAll env db (pressRelease i d n) s2)) i
         = (if even n then latchingState s2 i else \<not> latchingState s2 i)"
    unfolding s2_def .
  have l2: "latchingState s2 i = (\<not> latchingState s i)"
    using c(4) by (simp add: s2_def)
  have step: "processAll env db (pressRelease i d (Suc n)) s =
      (let (outs, s') = processAll env db (pressRelease i d n) s2
       in (published r # [] # outs, s'))"
    by (simp add: pressRelease_Suc c(1,2) s2_def Let_def split_beta)
  have spec: "toggleSpec env db i d (Suc n) (latchingState s i) s =
      (let (outs, s') = toggleSpec env db i d n (\<not> latchingState s i) s2
       in (published r # [] # outs, s'))"
    by (simp add: r_def s2_def Let_def split_beta)
  show ?case
    using ih unfolding step spec l2 by (auto simp: split_beta)
qed

text \<open>
  C6, as the code has it: for a latching input whose kind is neither \<open>NONE\<close> nor
  \<open>NOTE_LEGATO\<close>, not held and with its latch clear, any number of presses, each
  followed by its release, does what the toggle says: the first press emits the kind's
  "on" behaviour and sets the latch, the next press emits its "off" behaviour and clears
  it, and so on; every release emits nothing; after \<open>n\<close> presses the latch is set
  exactly when \<open>n\<close> is odd.
\<close>

theorem latching_toggle:
  assumes k: "latchingKind d" and ov: "\<not> saxOverride env db i"
    and idle: "\<not> state s i" and rng: "inRange s i" and clear: "\<not> latchingState s i"
  shows "processAll env db (pressRelease i d n) s = toggleSpec env db i d n False s
     \<and> latchingState (snd (processAll env db (pressRelease i d n) s)) i = odd n"
proof -
  note g = latching_toggle_general [OF k ov idle rng, of n]
  from clear have c: "latchingState s i = False"
    by simp
  from g [THEN conjunct1] c
  have a: "processAll env db (pressRelease i d n) s = toggleSpec env db i d n False s"
    by simp
  from g [THEN conjunct2] c
  have b: "latchingState (snd (processAll env db (pressRelease i d n) s)) i = odd n"
    by simp
  from a b show ?thesis
    by (rule conjI)
qed

text \<open>
  A latching note input, pressed and released twice: Note On, nothing, Note Off, nothing,
  and the latch is clear again; after a third press it is set.
\<close>

theorem latching_toggle_witness:
  "latchingKind dLatchNote \<and> \<not> saxOverride env0 dbSax 8 \<and> \<not> state s0 8 \<and> inRange s0 8
   \<and> \<not> latchingState s0 8
   \<and> map wire (fst (processAll env0 dbSax (pressRelease 8 dLatchNote 2) s0))
       = [[(BUTTON, MIDI_NOTE_ON, 0, 60, 127)], [], [(BUTTON, MIDI_NOTE_OFF, 0, 60, 0)], []]
   \<and> \<not> latchingState (snd (processAll env0 dbSax (pressRelease 8 dLatchNote 2) s0)) 8
   \<and> latchingState (snd (processAll env0 dbSax (pressRelease 8 dLatchNote 3) s0)) 8"
proof -
  have k: "latchingKind dLatchNote"
    by (simp add: latchingKind_def dLatchNote_def descriptor_def setEvent_def)
  have ov: "\<not> saxOverride env0 dbSax 8"
    by (simp add: saxOverride_def env0_def)
  have idle: "\<not> state s0 8" and rng: "inRange s0 8" and clear: "\<not> latchingState s0 8"
    by (simp_all add: s0_idle inRange_s0)
  note t = latching_toggle [OF k ov idle rng clear]
  have spec: "map wire (fst (toggleSpec env0 dbSax 8 dLatchNote 2 False s0))
       = [[(BUTTON, MIDI_NOTE_ON, 0, 60, 127)], [], [(BUTTON, MIDI_NOTE_OFF, 0, 60, 0)], []]"
    by (simp add: numeral_2_eq_2 Let_def split_beta sendMessage_def sendPress_def sendRelease_def
        dLatchNote_def descriptor_def setEvent_def emptyEvent_def wire_def)
  from t [of 2, THEN conjunct1] spec
  have out: "map wire (fst (processAll env0 dbSax (pressRelease 8 dLatchNote 2) s0))
       = [[(BUTTON, MIDI_NOTE_ON, 0, 60, 127)], [], [(BUTTON, MIDI_NOTE_OFF, 0, 60, 0)], []]"
    by simp
  from t [of 2, THEN conjunct2]
  have l2: "\<not> latchingState (snd (processAll env0 dbSax (pressRelease 8 dLatchNote 2) s0)) 8"
    by simp
  from t [of 3, THEN conjunct2]
  have l3: "latchingState (snd (processAll env0 dbSax (pressRelease 8 dLatchNote 3) s0)) 8"
    by simp
  from k ov idle rng clear out l2 l3 show ?thesis
    by blast
qed

text \<open>
  C6 as stated fails for the kind \<open>NONE\<close>: the press is committed to the pressed bit, but
  the latch is not toggled.
\<close>

theorem latching_none_counterexample:
  "btype (descriptor LATCHING NONE 0 60 127) = LATCHING
   \<and> messageType (descriptor LATCHING NONE 0 60 127) \<noteq> NOTE_LEGATO
   \<and> \<not> saxOverride env0 db0 8 \<and> \<not> state s0 8 \<and> \<not> latchingState s0 8
   \<and> state (members (processButton env0 db0 8 True (descriptor LATCHING NONE 0 60 127) s0)) 8
   \<and> \<not> latchingState (members (processButton env0 db0 8 True (descriptor LATCHING NONE 0 60 127) s0)) 8"
proof -
  let ?d = "descriptor LATCHING NONE 0 60 127"
  have d: "btype ?d = LATCHING" "messageType ?d = NONE"
    by (simp_all add: descriptor_def)
  have ov: "\<not> saxOverride env0 db0 8"
    by (simp add: saxOverride_def env0_def)
  have idle: "\<not> state s0 8" and rng: "inRange s0 8" and clear: "\<not> latchingState s0 8"
    by (simp_all add: s0_idle inRange_s0)
  have "processButton env0 db0 8 True ?d s0 = (?d, [], setState 8 True s0)"
    using d ov idle by (simp add: processButton_def Let_def)
  then show ?thesis
    using d ov idle rng clear by (simp add: state_setState)
qed

section \<open>Register-chromatic engine: legacy mode\<close>

lemma scanActiveKey_none: "(scanActiveKey p n = - 1) = (\<forall>i<n. \<not> p i)"
  by (induction n) (auto simp: less_Suc_eq)

lemma scanActiveKey_range: "- 1 \<le> scanActiveKey p n \<and> scanActiveKey p n < int n"
  by (induction n) auto

lemma scanActiveKey_some:
  "\<exists>i<n. p i \<Longrightarrow> highestPressed p n (nat (scanActiveKey p n)) \<and> 0 \<le> scanActiveKey p n"
proof (induction n)
  case 0
  then show ?case by simp
next
  case (Suc n)
  show ?case
  proof (cases "p n")
    case True
    then show ?thesis by (auto simp: highestPressed_def)
  next
    case False
    with Suc.prems have "\<exists>i<n. p i"
      by (auto simp: less_Suc_eq)
    from Suc.IH [OF this] False show ?thesis
      by (auto simp: highestPressed_def less_Suc_eq)
  qed
qed

lemma highestPressed_unique: "highestPressed p n k \<Longrightarrow> highestPressed p n k' \<Longrightarrow> k = k'"
  by (metis highestPressed_def linorder_neqE_nat)

lemma sint16: "sint (w :: 16 word) = (uint w + 32768) mod 65536 - 32768"
  using int_word_sint [of "uint w", where 'a = 16] by simp

lemma sint16_nonneg:
  assumes "0 \<le> sint (w :: 16 word)"
  shows "uint w = sint w"
proof -
  have b: "0 \<le> uint w" "uint w < 65536"
    using uint_lt2p [of w] by simp_all
  show ?thesis
  proof (cases "uint w < 32768")
    case True
    with b have "(uint w + 32768) mod 65536 = uint w + 32768"
      by simp
    then show ?thesis
      by (simp add: sint16)
  next
    case False
    have "uint w + 32768 = (uint w - 32768) + 65536"
      by simp
    then have "(uint w + 32768) mod 65536 = ((uint w - 32768) + 65536) mod 65536"
      by (rule arg_cong)
    also have "\<dots> = (uint w - 32768) mod 65536"
      by (rule mod_add_self2)
    also have "\<dots> = uint w - 32768"
      using False b by simp
    finally have "sint w = uint w - 65536"
      by (simp add: sint16)
    with assms b show ?thesis
      by simp
  qed
qed

lemma clampNote_sint: "unat (clampNote w) = nat (max 0 (min 127 (sint w)))"
proof -
  consider "sint w < 0" | "127 < sint w" | "0 \<le> sint w" "sint w \<le> 127"
    by linarith
  then show ?thesis
  proof cases
    case 1
    then show ?thesis by (simp add: clampNote_def word_sless_alt)
  next
    case 2
    then show ?thesis by (simp add: clampNote_def word_sless_alt)
  next
    case 3
    then have u: "uint w = sint w"
      by (simp add: sint16_nonneg)
    have "unat (ucast w :: 8 word) = unat w mod 256"
      by (simp add: unsigned_ucast_eq take_bit_eq_mod)
    also have "\<dots> = unat w"
      using 3 u by (simp add: unat_eq_nat_uint del: nat_uint_eq)
    finally show ?thesis
      using 3 u by (simp add: clampNote_def word_sless_alt unat_eq_nat_uint del: nat_uint_eq)
  qed
qed

lemma anyEnabled_tableStep:
  "anyEnabled (tableStep env db cur e t) = (anyEnabled t \<or> entryEnabled env db e)"
  by (simp add: tableStep_def Let_def)

lemma anyEnabled_fold:
  "anyEnabled (fold (tableStep env db cur) es t) = (anyEnabled t \<or> (\<exists>e \<in> set es. entryEnabled env db e))"
  by (induction es arbitrary: t) (auto simp: anyEnabled_tableStep)

lemma anyEnabled_tableScan:
  "anyEnabled (tableScan env db cur) = (\<exists>e < SAX_FINGERING_TABLE_ENTRIES env. entryEnabled env db e)"
  by (auto simp: tableScan_def anyEnabled_fold)

lemma mappedKey_remap:
  assumes k: "k < DIGITAL_INPUTS env" and size: "DIGITAL_INPUTS env \<le> 32000"
  shows "mappedKey env db k = of_nat (legacyRemap env db k)"
    and "legacyRemap env db k < DIGITAL_INPUTS env"
proof -
  let ?raw = "ucast (read_button db SAX_REGISTER_KEY_MAP k) :: 8 word"
  have uk: "unat (of_nat k :: 16 word) = k"
    using k size by (simp add: unat_of_nat)
  show "legacyRemap env db k < DIGITAL_INPUTS env"
    using k by (auto simp: legacyRemap_def Let_def)
  show "mappedKey env db k = of_nat (legacyRemap env db k)"
  proof (cases "?raw = 0")
    case True
    then show ?thesis
      using k uk by (simp add: mappedKey_def legacyRemap_def Let_def)
  next
    case False
    then have pos: "unat ?raw \<noteq> 0"
      by (simp add: unat_eq_0)
    have m1: "unat (?raw - 1) = unat ?raw - 1"
      using False by (simp add: unat_minus_one)
    have "unat (?raw - 1) < 256"
      using unsigned_less [of "?raw - 1"] by simp
    then have u: "unat (ucast (?raw - 1) :: 16 word) = unat ?raw - 1"
      using m1 by (simp add: unsigned_ucast_eq take_bit_nat_eq_self)
    have "(ucast (?raw - 1) :: 16 word) = of_nat (unat (ucast (?raw - 1) :: 16 word))"
      by simp
    then have w: "(ucast (?raw - 1) :: 16 word) = of_nat (unat ?raw - 1)"
      by (simp only: u)
    show ?thesis
      using False pos u w by (simp add: mappedKey_def legacyRemap_def Let_def)
  qed
qed

lemma sint_of_int16:
  assumes "- 32768 \<le> x" and "x < 32768"
  shows "sint (word_of_int x :: 16 word) = x"
proof -
  have "(x + 32768) mod 65536 = x + 32768"
    using assms by simp
  then show ?thesis
    by (simp add: int_word_sint)
qed

lemma sum_of_int:
  "(of_nat a + of_nat r + (of_nat t - 24) :: 16 word) = word_of_int (int a + int r + (int t - 24))"
  by simp

lemma legacy_sum:
  assumes r: "r < DIGITAL_INPUTS env" and size: "DIGITAL_INPUTS env \<le> 32000"
    and tr: "unat (tr :: 16 word) \<le> 48"
  shows "sint (ucast (base :: 8 word) + of_nat r + (tr - 24) :: 16 word)
         = int (unat base) + int r + (int (unat tr) - 24)"
proof -
  have b: "unat base < 256"
    using unsigned_less [of base] by simp
  have "(ucast base + of_nat r + (tr - 24) :: 16 word)
        = word_of_int (int (unat base) + int r + (int (unat tr) - 24))"
    using sum_of_int [of "unat base" r "unat tr"] by simp
  moreover have "sint (word_of_int (int (unat base) + int r + (int (unat tr) - 24)) :: 16 word)
        = int (unat base) + int r + (int (unat tr) - 24)"
  proof (rule sint_of_int16)
    show "- 32768 \<le> int (unat base) + int r + (int (unat tr) - 24)"
      by linarith
    show "int (unat base) + int r + (int (unat tr) - 24) < 32768"
      using b r size tr by linarith
  qed
  ultimately show ?thesis
    by (rule ssubst)
qed

text \<open>
  C7, as the code has it. In legacy mode (no table entry enabled), with a stored transpose
  in its range 0..48: a key counts as pressed when its pressed bit, inverted if the input
  inversion is on, is set. When no digital key counts as pressed, the sounding note (if
  any) gets its Note Off and nothing else is published. Otherwise the active key \<open>k\<close>
  is the highest index that counts as pressed, the target note is the clamped sum of base
  note, remapped key and transpose, and the engine publishes nothing when that note is
  sounding already, and otherwise the Note Off of the sounding note (if any) followed by
  the Note On of the target.
\<close>

theorem legacy_mode:
  assumes legacy: "\<forall>e < SAX_FINGERING_TABLE_ENTRIES env. \<not> entryEnabled env db e"
    and size: "DIGITAL_INPUTS env \<le> 32000"
    and tr: "unat (ucast (read_system db SAX_REGISTER_CHROMATIC_TRANSPOSE) :: 16 word) \<le> 48"
    and ch: "ch = saxChannel db"
  shows "if \<forall>i < DIGITAL_INPUTS env. \<not> saxPressed db s i
         then processSaxRegisterChromatic env db s =
                (if saxNoteOn s
                 then ([(BUTTON, saxOffEvent ch (saxActiveNote s))], s\<lparr>saxNoteOn := False\<rparr>)
                 else ([], s))
         else \<exists>k note.
                highestPressed (saxPressed db s) (DIGITAL_INPUTS env) k
                \<and> int (unat note) = legacyNote env db k
                \<and> processSaxRegisterChromatic env db s =
                    (if saxNoteOn s \<and> saxActiveNote s = note then ([], s)
                     else ((if saxNoteOn s then [(BUTTON, saxOffEvent ch (saxActiveNote s))] else [])
                           @ [(BUTTON, saxOnEvent ch note)],
                           s\<lparr>saxActiveNote := note, saxNoteOn := True\<rparr>))"
proof -
  let ?p = "saxPressed db s"
  let ?n = "DIGITAL_INPUTS env"
  let ?key = "scanActiveKey ?p ?n"
  have none: "\<not> anyEnabled (tableScan env db (currentMask env db s))"
    using legacy by (simp add: anyEnabled_tableScan)
  show ?thesis
  proof (cases "\<forall>i < ?n. \<not> ?p i")
    case True
    then have "?key = - 1"
      by (simp add: scanActiveKey_none)
    then have "processSaxRegisterChromatic env db s = saxSilence ch s"
      using none by (simp add: processSaxRegisterChromatic_def Let_def ch)
    with True show ?thesis
      by (simp add: saxSilence_def)
  next
    case False
    then have ex: "\<exists>i < ?n. ?p i" by simp
    from scanActiveKey_some [OF ex]
    have hp: "highestPressed ?p ?n (nat ?key)" and pos: "0 \<le> ?key"
      by simp_all
    define k where "k = nat ?key"
    have k: "k < ?n"
      using hp by (simp add: highestPressed_def k_def)
    let ?base = "ucast (read_system db SAX_REGISTER_CHROMATIC_BASE_NOTE) :: 8 word"
    let ?tr = "ucast (read_system db SAX_REGISTER_CHROMATIC_TRANSPOSE) :: 16 word"
    define w where "w = (ucast ?base + mappedKey env db k + saxTranspose db :: 16 word)"
    define nt where "nt = clampNote w"
    note mk = mappedKey_remap [OF k size, of db]
    have "sint w = int (unat ?base) + int (legacyRemap env db k) + (int (unat ?tr) - 24)"
      unfolding w_def mk(1) saxTranspose_def Let_def
      by (rule legacy_sum [OF mk(2) size tr])
    then have n: "int (unat nt) = legacyNote env db k"
      by (simp add: nt_def clampNote_sint legacyNote_def)
    have run: "processSaxRegisterChromatic env db s = saxSound ch nt s"
      using none pos
      by (simp add: processSaxRegisterChromatic_def Let_def ch nt_def w_def k_def)
    show ?thesis
      using False hp n run unfolding k_def [symmetric]
      by (auto simp: saxSound_def)
  qed
qed

text \<open>
  Keys 2 and 4 held with base 60 and transpose 0 sound note 64; releasing key 4 makes key 2
  the active key and publishes \<open>Off(64)\<close>, \<open>On(62)\<close>. The last conjunct runs the
  three edges through \<open>processButton\<close>.
\<close>

lemma legacy_example:
  "map wire (fst (processAll env0 dbSax
      [(2, True, descriptor MOMENTARY NOTE 0 0 0), (4, True, descriptor MOMENTARY NOTE 0 0 0),
       (4, False, descriptor MOMENTARY NOTE 0 0 0)] s0))
   = [[(BUTTON, MIDI_NOTE_ON, 0, 62, 127)],
      [(BUTTON, MIDI_NOTE_OFF, 0, 62, 0), (BUTTON, MIDI_NOTE_ON, 0, 64, 127)],
      [(BUTTON, MIDI_NOTE_OFF, 0, 64, 0), (BUTTON, MIDI_NOTE_ON, 0, 62, 127)]]"
  by code_simp

lemma sKey2_pressed:
  "saxPressed dbSax sKey2 2" "\<not> saxPressed dbSax sKey2 3" "\<not> saxPressed dbSax sKey2 4"
  by code_simp+

lemma sKey2_highest: "highestPressed (saxPressed dbSax sKey2) 5 2"
proof -
  have "j = 3 \<or> j = 4" if "2 < j" "j < 5" for j :: nat
    using that by linarith
  then show ?thesis
    using sKey2_pressed by (auto simp: highestPressed_def)
qed

lemma env0_legacy: "\<forall>e < SAX_FINGERING_TABLE_ENTRIES env0. \<not> entryEnabled env0 dbSax e"
proof -
  have "\<not> entryEnabled env0 dbSax e" for e
    by (simp add: entryEnabled_def dbSax_def db0_def)
  then show ?thesis by simp
qed

theorem legacy_mode_witness:
  "DIGITAL_INPUTS env0 \<le> 32000
   \<and> unat (ucast (read_system dbSax SAX_REGISTER_CHROMATIC_TRANSPOSE) :: 16 word) \<le> 48
   \<and> highestPressed (saxPressed dbSax sKey2) (DIGITAL_INPUTS env0) 2
   \<and> legacyNote env0 dbSax 2 = 62
   \<and> wire (fst (processSaxRegisterChromatic env0 dbSax sKey2))
       = [(BUTTON, MIDI_NOTE_OFF, 0, 64, 0), (BUTTON, MIDI_NOTE_ON, 0, 62, 127)]
   \<and> map wire (fst (processAll env0 dbSax
        [(2, True, descriptor MOMENTARY NOTE 0 0 0), (4, True, descriptor MOMENTARY NOTE 0 0 0),
         (4, False, descriptor MOMENTARY NOTE 0 0 0)] s0))
       = [[(BUTTON, MIDI_NOTE_ON, 0, 62, 127)],
          [(BUTTON, MIDI_NOTE_OFF, 0, 62, 0), (BUTTON, MIDI_NOTE_ON, 0, 64, 127)],
          [(BUTTON, MIDI_NOTE_OFF, 0, 64, 0), (BUTTON, MIDI_NOTE_ON, 0, 62, 127)]]"
proof -
  have size: "DIGITAL_INPUTS env0 \<le> 32000" and d5: "DIGITAL_INPUTS env0 = 5"
    by (simp_all add: env0_def)
  have tr: "unat (ucast (read_system dbSax SAX_REGISTER_CHROMATIC_TRANSPOSE) :: 16 word) \<le> 48"
    by (simp add: dbSax_def)
  have hp: "highestPressed (saxPressed dbSax sKey2) (DIGITAL_INPUTS env0) 2"
    using sKey2_highest by (simp add: d5)
  have some: "\<not> (\<forall>i < DIGITAL_INPUTS env0. \<not> saxPressed dbSax sKey2 i)"
  proof
    assume "\<forall>i < DIGITAL_INPUTS env0. \<not> saxPressed dbSax sKey2 i"
    then have "\<not> saxPressed dbSax sKey2 2"
      by (simp add: d5)
    with sKey2_pressed(1) show False by simp
  qed
  have ln: "legacyNote env0 dbSax 2 = 62"
    by code_simp
  have on: "saxNoteOn sKey2" "saxActiveNote sKey2 = 64"
    by (simp_all add: sKey2_def)
  from legacy_mode [OF env0_legacy size tr refl, of sKey2] some
  obtain k nt where k: "highestPressed (saxPressed dbSax sKey2) (DIGITAL_INPUTS env0) k"
    and n: "int (unat nt) = legacyNote env0 dbSax k"
    and run: "processSaxRegisterChromatic env0 dbSax sKey2 =
                    (if saxNoteOn sKey2 \<and> saxActiveNote sKey2 = nt then ([], sKey2)
                     else ((if saxNoteOn sKey2
                            then [(BUTTON, saxOffEvent (saxChannel dbSax) (saxActiveNote sKey2))]
                            else [])
                           @ [(BUTTON, saxOnEvent (saxChannel dbSax) nt)],
                           sKey2\<lparr>saxActiveNote := nt, saxNoteOn := True\<rparr>))"
    by auto
  from highestPressed_unique [OF k hp] have "k = 2" .
  with n ln have "uint nt = 62" by simp
  then have nt: "nt = 62"
    using word_of_int_uint [of nt] by simp
  have chn: "saxChannel dbSax = 0"
    by code_simp
  have "wire (fst (processSaxRegisterChromatic env0 dbSax sKey2))
       = [(BUTTON, MIDI_NOTE_OFF, 0, 64, 0), (BUTTON, MIDI_NOTE_ON, 0, 62, 127)]"
    unfolding run by (simp add: on nt chn wire_def saxOffEvent_def saxOnEvent_def emptyEvent_def)
  with size tr hp ln legacy_example show ?thesis
    by simp
qed

text \<open>
  C7 as stated fails when the input inversion is on: after the release of the only held
  key no key is pressed, yet every key counts as pressed, key 4 is the active key, and the
  engine publishes the Note On of note 64.
\<close>

theorem legacy_invert_counterexample:
  "\<not> state sKey0 1 \<and> \<not> state sKey0 2 \<and> \<not> state sKey0 3 \<and> \<not> state sKey0 4 \<and> state sKey0 0
   \<and> \<not> saxNoteOn sKey0
   \<and> \<not> state (members (processButton env0 dbSaxInvert 0 False (descriptor MOMENTARY NOTE 0 0 0) sKey0)) 0
   \<and> wire (published (processButton env0 dbSaxInvert 0 False (descriptor MOMENTARY NOTE 0 0 0) sKey0))
       = [(BUTTON, MIDI_NOTE_ON, 0, 64, 127)]"
  by code_simp

section \<open>Register-chromatic engine: table mode\<close>

lemma scanned_Suc: "scanned env db cur (Suc m) = tableStep env db cur m (scanned env db cur m)"
  by (simp add: scanned_def)

lemma tableStep_cases:
  "tableStep env db cur e t =
     (if tableCandidate env db cur e \<and> (\<not> hasMatch t \<or> bestScore t < entryScore env db e)
      then t\<lparr>anyEnabled := True, bestScore := entryScore env db e,
              bestNote := ucast (entryNote db e), hasMatch := True\<rparr>
      else t\<lparr>anyEnabled := anyEnabled t \<or> entryEnabled env db e\<rparr>)"
  by (auto simp: tableStep_def Let_def tableCandidate_def entryScore_def not_less)

lemma scanned_invariant:
  "(hasMatch (scanned env db cur m) \<longleftrightarrow> (\<exists>e<m. tableCandidate env db cur e))
   \<and> (hasMatch (scanned env db cur m) \<longrightarrow>
        (\<exists>w. scanWinner env db cur m w
           \<and> bestScore (scanned env db cur m) = entryScore env db w
           \<and> bestNote (scanned env db cur m) = ucast (entryNote db w)))"
proof (induction m)
  case 0
  show ?case by (simp add: scanned_def)
next
  case (Suc m)
  let ?t = "scanned env db cur m"
  let ?c = "tableCandidate env db cur"
  let ?sc = "entryScore env db"
  from Suc have hm: "hasMatch ?t \<longleftrightarrow> (\<exists>e<m. ?c e)"
    and win: "hasMatch ?t \<Longrightarrow> \<exists>w. scanWinner env db cur m w \<and> bestScore ?t = ?sc w
                 \<and> bestNote ?t = ucast (entryNote db w)"
    by simp_all
  show ?case
  proof (cases "?c m \<and> (\<not> hasMatch ?t \<or> bestScore ?t < ?sc m)")
    case True
    then have step: "scanned env db cur (Suc m) =
        ?t\<lparr>anyEnabled := True, bestScore := ?sc m, bestNote := ucast (entryNote db m),
            hasMatch := True\<rparr>"
      by (simp add: scanned_Suc tableStep_cases)
    have below: "?sc e < ?sc m" if "e < m" "?c e" for e
    proof -
      from that hm have h: "hasMatch ?t" by auto
      from win [OF h] obtain w where w: "scanWinner env db cur m w" "bestScore ?t = ?sc w"
        by auto
      from w(1) that have "?sc e \<le> ?sc w"
        by (simp add: scanWinner_def)
      moreover from True h w(2) have "?sc w < ?sc m" by simp
      ultimately show ?thesis by simp
    qed
    have "scanWinner env db cur (Suc m) m"
      using True below by (auto simp: scanWinner_def less_Suc_eq dest: less_imp_le)
    with True show ?thesis
      unfolding step by (auto simp: less_Suc_eq)
  next
    case False
    then have step: "scanned env db cur (Suc m) =
        ?t\<lparr>anyEnabled := anyEnabled ?t \<or> entryEnabled env db m\<rparr>"
      unfolding scanned_Suc tableStep_cases by (rule if_not_P)
    show ?thesis
    proof (cases "hasMatch ?t")
      case h: True
      from win [OF h] obtain w where w: "scanWinner env db cur m w" "bestScore ?t = ?sc w"
          "bestNote ?t = ucast (entryNote db w)"
        by auto
      from False h w(2) have "?c m \<Longrightarrow> ?sc m \<le> ?sc w"
        by (auto simp: not_less)
      with w(1) have "scanWinner env db cur (Suc m) w"
        by (auto simp: scanWinner_def less_Suc_eq)
      with h w hm show ?thesis
        unfolding step by (auto simp: less_Suc_eq)
    next
      case nh: False
      with False have "\<not> ?c m" by simp
      with nh hm show ?thesis
        unfolding step by (auto simp: less_Suc_eq)
    qed
  qed
qed

lemma scanWinner_unique:
  assumes "scanWinner env db cur n w" and "scanWinner env db cur n w'"
  shows "w = w'"
proof (rule ccontr)
  assume ne: "w \<noteq> w'"
  have False if a: "scanWinner env db cur n u" and b: "scanWinner env db cur n v" and lt: "u < v"
    for u v
  proof -
    from b a lt have "entryScore env db u < entryScore env db v"
      by (simp add: scanWinner_def)
    moreover from a b have "entryScore env db v \<le> entryScore env db u"
      by (simp add: scanWinner_def)
    ultimately show False by simp
  qed
  from this [OF assms] this [OF assms(2,1)] ne show False
    by (meson linorder_neqE_nat)
qed

lemma finite_bits: "finite {i. bit (v :: 32 word) i}"
proof (rule finite_subset)
  show "{i. bit v i} \<subseteq> {..<32}"
    by (auto dest: bit_imp_le_length)
qed simp

lemma card_shift:
  assumes "finite (A :: nat set)"
  shows "card A = (if 0 \<in> A then 1 else 0) + card {i. Suc i \<in> A}"
proof -
  let ?B = "{i. Suc i \<in> A}"
  have fin: "finite ?B"
  proof (rule finite_imageD)
    show "finite (Suc ` ?B)"
      by (rule finite_subset [OF _ assms]) auto
  qed simp
  have split: "A = (A \<inter> {0}) \<union> Suc ` ?B"
  proof (rule set_eqI)
    fix x show "x \<in> A \<longleftrightarrow> x \<in> (A \<inter> {0}) \<union> Suc ` ?B"
      by (cases x) auto
  qed
  have "card A = card ((A \<inter> {0}) \<union> Suc ` ?B)"
    using split by simp
  also have "\<dots> = card (A \<inter> {0}) + card (Suc ` ?B)"
    by (rule card_Un_disjoint) (use fin in auto)
  also have "card (Suc ` ?B) = card ?B"
    by (rule card_image) simp
  also have "card (A \<inter> {0}) = (if 0 \<in> A then 1 else 0)"
    by auto
  finally show ?thesis by simp
qed

lemma bits_step:
  "card {i. bit (v :: 32 word) i} = (if odd v then 1 else 0) + card {i. bit (drop_bit 1 v) i}"
  using card_shift [OF finite_bits, of v]
  by (simp add: bit_drop_bit_eq bit_0)

lemma popcount32_card: "popcount32 v c = c + of_nat (card {i. bit v i})"
proof (induction v c rule: popcount32.induct)
  case (1 v c)
  show ?case
  proof (cases "v = 0")
    case True
    then show ?thesis by (simp add: popcount32.simps)
  next
    case False
    have low: "(ucast (v AND 1) :: 8 word) = (if odd v then 1 else 0)"
    proof (cases "odd v")
      case True
      then have "v mod 2 = 1" by (simp add: odd_iff_mod_2_eq_one)
      with True show ?thesis by (simp add: and_one_eq)
    next
      case False
      then have "v mod 2 = 0" by (simp add: even_iff_mod_2_eq_zero)
      with False show ?thesis by (simp add: and_one_eq)
    qed
    have "popcount32 v c = popcount32 (drop_bit 1 v) (c + ucast (v AND 1))"
      using False by (subst popcount32.simps) simp
    also have "\<dots> = c + ucast (v AND 1) + of_nat (card {i. bit (drop_bit 1 v) i})"
      using "1.IH" [OF False] .
    also have "\<dots> = c + of_nat (card {i. bit v i})"
      by (simp add: low bits_step [of v])
    finally show ?thesis .
  qed
qed

lemma card_bits_le: "card {i. bit (v :: 32 word) i} \<le> 32"
proof -
  have "card {i. bit v i} \<le> card {..<32::nat}"
    by (rule card_mono) (auto dest: bit_imp_le_length)
  then show ?thesis by simp
qed

lemma entryScore_popcount: "unat (entryScore env db e) = card {i. bit (entryMask env db e) i}"
  using card_bits_le [of "entryMask env db e"]
  by (simp add: entryScore_def popcount32_card unat_of_nat)

lemma scanWinner_tableWinner:
  "scanWinner env db cur (SAX_FINGERING_TABLE_ENTRIES env) w = tableWinner env db cur w"
  by (simp add: scanWinner_def tableWinner_def maskBits_def word_le_nat_alt word_less_nat_alt
      entryScore_popcount)

lemma tableScan_scanned: "tableScan env db cur = scanned env db cur (SAX_FINGERING_TABLE_ENTRIES env)"
  by (simp add: tableScan_def scanned_def)

lemma note_le_127: "(n :: 16 word) \<le> 127 \<Longrightarrow> n < 128"
  by (simp add: word_le_nat_alt word_less_nat_alt)

text \<open>
  C3, as the code has it. In table mode (some entry enabled) the candidates are the enabled
  entries whose mask is a subset of the current mask and whose stored note is at most 127.
  When the current mask is empty or there is no candidate, the sounding note (if any) gets
  its Note Off and nothing else is published. Otherwise the candidate with the highest
  population count supplies the note, the lower index winning a tie; the target is its
  stored note plus the transpose, clamped to 0..127, and the engine publishes nothing when
  the target is sounding already, and otherwise the Note Off of the sounding note (if any)
  followed by the Note On of the target.
\<close>

theorem table_mode:
  assumes table: "\<exists>e < SAX_FINGERING_TABLE_ENTRIES env. entryEnabled env db e"
    and cur: "cur = currentMask env db s" and ch: "ch = saxChannel db"
  shows "if cur = 0 \<or> (\<forall>e < SAX_FINGERING_TABLE_ENTRIES env. \<not> tableCandidate env db cur e)
         then processSaxRegisterChromatic env db s =
                (if saxNoteOn s
                 then ([(BUTTON, saxOffEvent ch (saxActiveNote s))], s\<lparr>saxNoteOn := False\<rparr>)
                 else ([], s))
         else \<exists>w nt.
                tableWinner env db cur w
                \<and> nt = clampNote (entryNote db w + saxTranspose db)
                \<and> processSaxRegisterChromatic env db s =
                    (if saxNoteOn s \<and> saxActiveNote s = nt then ([], s)
                     else ((if saxNoteOn s then [(BUTTON, saxOffEvent ch (saxActiveNote s))] else [])
                           @ [(BUTTON, saxOnEvent ch nt)],
                           s\<lparr>saxActiveNote := nt, saxNoteOn := True\<rparr>))"
proof -
  let ?n = "SAX_FINGERING_TABLE_ENTRIES env"
  let ?t = "tableScan env db cur"
  have any: "anyEnabled ?t"
    using table by (simp add: anyEnabled_tableScan)
  note inv = scanned_invariant [of env db cur ?n, folded tableScan_scanned]
  show ?thesis
  proof (cases "cur = 0 \<or> (\<forall>e < ?n. \<not> tableCandidate env db cur e)")
    case True
    then have "\<not> hasMatch ?t \<or> cur = 0"
      using inv by auto
    then have "processSaxRegisterChromatic env db s = saxSilence ch s"
      using any by (simp add: processSaxRegisterChromatic_def Let_def cur [symmetric] ch)
    with True show ?thesis
      by (simp add: saxSilence_def)
  next
    case False
    then have h: "hasMatch ?t" and nz: "cur \<noteq> 0"
      using inv by auto
    from inv h obtain w where w: "scanWinner env db cur ?n w"
      and bn: "bestNote ?t = ucast (entryNote db w)"
      by auto
    from w have tw: "tableWinner env db cur w"
      by (simp add: scanWinner_tableWinner)
    then have "entryNote db w \<le> 127"
      by (simp add: tableWinner_def tableCandidate_def)
    then have rt: "(ucast (bestNote ?t) :: 16 word) = entryNote db w"
      by (simp add: bn note_ucast_ucast note_le_127)
    have "processSaxRegisterChromatic env db s =
        saxSound ch (clampNote (entryNote db w + saxTranspose db)) s"
      using any h nz
      by (simp add: processSaxRegisterChromatic_def Let_def cur [symmetric] ch rt)
    with False tw show ?thesis
      by (auto simp: saxSound_def)
  qed
qed

text \<open>
  Keys 0, 1, 2 held. Entry 0 requires keys 0, 1 (note 60) and entry 1 requires keys 0, 1, 2
  (note 72): entry 1 wins and note 72 sounds. When entry 1 requires keys 0 and 2 only, both
  have two bits and entry 0 wins: note 60 sounds.
\<close>

lemma tableWinner_unique: "tableWinner env db cur w \<Longrightarrow> tableWinner env db cur w' \<Longrightarrow> w = w'"
  using scanWinner_unique [of env db cur "SAX_FINGERING_TABLE_ENTRIES env" w w']
  by (simp add: scanWinner_tableWinner)

lemma maskBits_score: "maskBits env db e = unat (entryScore env db e)"
  by (simp add: maskBits_def entryScore_popcount)

lemma dbTable_facts:
  "currentMask env0 dbTable sKeys012 = 7"
  "entryEnabled env0 dbTable 0" "entryEnabled env0 dbTable 1"
  "tableCandidate env0 dbTable 7 0" "tableCandidate env0 dbTable 7 1"
  "unat (entryScore env0 dbTable 0) = 2" "unat (entryScore env0 dbTable 1) = 3"
  "clampNote (entryNote dbTable 1 + saxTranspose dbTable) = 72"
  "saxChannel dbTable = 0"
  by code_simp+

lemma dbTable_winner: "tableWinner env0 dbTable 7 1"
proof -
  have n: "SAX_FINGERING_TABLE_ENTRIES env0 = 2"
    by (simp add: env0_def)
  have two: "e = 0 \<or> e = 1" if "e < 2" for e :: nat
    using that by linarith
  have le: "unat (entryScore env0 dbTable e) \<le> unat (entryScore env0 dbTable 1)"
    if "e < 2" for e
    using two [OF that] dbTable_facts(6,7) by auto
  have lt: "unat (entryScore env0 dbTable e) < unat (entryScore env0 dbTable 1)"
    if "e < 1" for e
    using that dbTable_facts(6,7) by simp
  show ?thesis
    unfolding tableWinner_def n maskBits_score
    using dbTable_facts(5) le lt by simp
qed

lemma env0_entries: "SAX_FINGERING_TABLE_ENTRIES env0 = 2"
  by (simp add: env0_def)

theorem table_mode_witness:
  "(\<exists>e < SAX_FINGERING_TABLE_ENTRIES env0. entryEnabled env0 dbTable e)
   \<and> currentMask env0 dbTable sKeys012 = 7
   \<and> tableWinner env0 dbTable 7 1
   \<and> maskBits env0 dbTable 0 = 2 \<and> maskBits env0 dbTable 1 = 3
   \<and> wire (fst (processSaxRegisterChromatic env0 dbTable sKeys012))
       = [(BUTTON, MIDI_NOTE_ON, 0, 72, 127)]
   \<and> maskBits env0 dbTableTie 0 = 2 \<and> maskBits env0 dbTableTie 1 = 2
   \<and> wire (fst (processSaxRegisterChromatic env0 dbTableTie sKeys012))
       = [(BUTTON, MIDI_NOTE_ON, 0, 60, 127)]"
proof -
  have en: "\<exists>e < SAX_FINGERING_TABLE_ENTRIES env0. entryEnabled env0 dbTable e"
    unfolding env0_entries using dbTable_facts(2) by (intro exI [of _ 0]) simp
  have cur: "7 = currentMask env0 dbTable sKeys012"
    using dbTable_facts(1) by simp
  have cand: "\<not> ((7 :: 32 word) = 0
      \<or> (\<forall>e < SAX_FINGERING_TABLE_ENTRIES env0. \<not> tableCandidate env0 dbTable 7 e))"
  proof -
    have "\<exists>e<2. tableCandidate env0 dbTable 7 e"
      using dbTable_facts(4) by (intro exI [of _ 0]) simp
    then show ?thesis
      unfolding env0_entries by simp
  qed
  have idle: "\<not> saxNoteOn sKeys012"
    by (simp add: sKeys012_def s0_def)
  from table_mode [OF en cur refl, unfolded if_not_P [OF cand]]
  obtain w nt where w: "tableWinner env0 dbTable 7 w"
    and nt: "nt = clampNote (entryNote dbTable w + saxTranspose dbTable)"
    and run: "processSaxRegisterChromatic env0 dbTable sKeys012 =
                    (if saxNoteOn sKeys012 \<and> saxActiveNote sKeys012 = nt then ([], sKeys012)
                     else ((if saxNoteOn sKeys012
                            then [(BUTTON, saxOffEvent (saxChannel dbTable) (saxActiveNote sKeys012))]
                            else [])
                           @ [(BUTTON, saxOnEvent (saxChannel dbTable) nt)],
                           sKeys012\<lparr>saxActiveNote := nt, saxNoteOn := True\<rparr>))"
    by blast
  from tableWinner_unique [OF w dbTable_winner] have "w = 1" .
  with nt have nt72: "nt = 72"
    using dbTable_facts(8) by simp
  have out: "wire (fst (processSaxRegisterChromatic env0 dbTable sKeys012))
       = [(BUTTON, MIDI_NOTE_ON, 0, 72, 127)]"
    unfolding run
    by (simp add: idle nt72 dbTable_facts(9) wire_def saxOnEvent_def emptyEvent_def)
  have bits: "maskBits env0 dbTable 0 = 2" "maskBits env0 dbTable 1 = 3"
    using dbTable_facts(6,7) by (simp_all add: maskBits_score)
  have tie: "unat (entryScore env0 dbTableTie 0) = 2" "unat (entryScore env0 dbTableTie 1) = 2"
    "wire (fst (processSaxRegisterChromatic env0 dbTableTie sKeys012))
       = [(BUTTON, MIDI_NOTE_ON, 0, 60, 127)]"
    by code_simp+
  from tie(1,2) have tbits: "maskBits env0 dbTableTie 0 = 2" "maskBits env0 dbTableTie 1 = 2"
    by (simp_all add: maskBits_score)
  from en dbTable_facts(1) dbTable_winner bits out tbits tie(3) show ?thesis
    by blast
qed

text \<open>
  C3 as stated fails when the entry with the highest population count has no valid note:
  keys 0 and 1 are held and key 2 is pressed; both entries are enabled and match the mask,
  entry 1 has three bits against two, but its stored note is 200, so the scan passes over
  it and entry 0 supplies note 60.
\<close>

theorem table_unset_note_counterexample:
  "entryEnabled env0 dbTableUnset 0 \<and> entryEnabled env0 dbTableUnset 1
   \<and> state sKeys01 0 \<and> state sKeys01 1 \<and> \<not> state sKeys01 2 \<and> \<not> saxNoteOn sKeys01
   \<and> currentMask env0 dbTableUnset
        (members (processButton env0 dbTableUnset 2 True (descriptor MOMENTARY NOTE 0 0 0) sKeys01)) = 7
   \<and> entryMask env0 dbTableUnset 0 = 3 \<and> entryMask env0 dbTableUnset 1 = 7
   \<and> entryMask env0 dbTableUnset 0 AND 7 = entryMask env0 dbTableUnset 0
   \<and> entryMask env0 dbTableUnset 1 AND 7 = entryMask env0 dbTableUnset 1
   \<and> unat (entryScore env0 dbTableUnset 0) = 2 \<and> unat (entryScore env0 dbTableUnset 1) = 3
   \<and> entryNote dbTableUnset 0 = 60 \<and> entryNote dbTableUnset 1 = 200
   \<and> wire (published (processButton env0 dbTableUnset 2 True (descriptor MOMENTARY NOTE 0 0 0) sKeys01))
       = [(BUTTON, MIDI_NOTE_ON, 0, 60, 127)]"
  by code_simp

end
